theory Spec2Isabelle
  imports Main "HOL-Library.Word"
begin

unbundle bit_operations_syntax

section \<open>Data model\<close>

text \<open>
  Bytes are \<open>unsigned char\<close>; \<open>size_t\<close> and the frame's \<open>size\<close> field are 64 bits wide
  (an LP64 platform), so every sum of sizes below wraps modulo \<open>2 ^ 64\<close> as in the C code.
\<close>

type_synonym byte = "8 word"
type_synonym size_t = "64 word"

text \<open>
  The frame types of \<open>websocket.h\<close> (RFC 6455 opcodes) and the result of
  \<open>vws_deserialize\<close>.
\<close>

definition CONTINUATION_FRAME :: byte where "CONTINUATION_FRAME = 0x0"
definition TEXT_FRAME :: byte where "TEXT_FRAME = 0x1"
definition BINARY_FRAME :: byte where "BINARY_FRAME = 0x2"
definition CLOSE_FRAME :: byte where "CLOSE_FRAME = 0x8"
definition PING_FRAME :: byte where "PING_FRAME = 0x9"
definition PONG_FRAME :: byte where "PONG_FRAME = 0xA"

datatype fs_t = FRAME_COMPLETE | FRAME_INCOMPLETE | FRAME_ERROR

text \<open>The error kinds of the per-thread last-error.\<close>

datatype error_code =
  VE_NONE | VE_WARN | VE_TIMEOUT | VE_SYS | VE_RT | VE_SOCKET | VE_MEM | VE_FATAL

text \<open>
  A call that does not come back with a result of its own: it reports an error kind
  through \<open>vws.error\<close> and returns its sentinel (\<open>Reported\<close>); or it leaves the defined
  behaviour of C, reading or writing outside an allocated block or through a null pointer
  (\<open>MemoryFault\<close>); or it waits for an answer of the operating system that the modelled
  world does not hold (\<open>NoAnswer\<close>).
\<close>

datatype failure = Reported error_code | MemoryFault | NoAnswer

text \<open>
  \<open>struct vws_frame\<close>. The field \<open>data\<close> is the block \<open>f->data\<close> points to (\<open>[]\<close> for
  \<open>NULL\<close>); the code addresses its first \<open>size\<close> bytes. The fields \<open>mask\<close> and \<open>size\<close>
  carry a suffix because HOL has constants of these names.
\<close>

record vws_frame =
  fin :: byte
  opcode :: byte
  mask_f :: byte
  offset :: "32 word"
  size_f :: size_t
  data :: "byte list"

text \<open>The frames the data model admits: boolean flags, a 4-bit opcode, and a payload
  block of exactly \<open>size\<close> bytes, at most \<open>2 ^ 63 - 1\<close>.\<close>

definition frame_ok :: "vws_frame \<Rightarrow> bool" where
  "frame_ok f \<longleftrightarrow>
     fin f \<le> 1 \<and> opcode f \<le> 0x0F \<and> mask_f f \<le> 1 \<and>
     unat (size_f f) = length (data f) \<and> length (data f) < 2 ^ 63"

section \<open>Frame codec\<close>

text \<open>\<open>vws_frame_new(data, s, oc)\<close>: a final, masked frame with its own copy of the payload.\<close>

definition vws_frame_new :: "byte list \<Rightarrow> size_t \<Rightarrow> byte \<Rightarrow> vws_frame" where
  "vws_frame_new d s oc =
     \<lparr> fin = 1, opcode = oc, mask_f = 1, offset = 0, size_f = s,
       data = (if s > 0 then take (unat s) d else []) \<rparr>"

text \<open>
  Section 1 of \<open>vws_serialize\<close>: the bytes \<open>header[1 .. header_size)\<close>, that is the
  length field and the extended length, before the mask bit is set.
\<close>

definition length_header :: "size_t \<Rightarrow> byte list" where
  "length_header payload_length =
     (if payload_length \<le> 125 then [ucast payload_length]
      else if payload_length \<le> 65535 then
        [126,
         ucast (drop_bit 8 payload_length AND 0xFF),
         ucast (payload_length AND 0xFF)]
      else
        [127,
         ucast (drop_bit 56 payload_length AND 0xFF),
         ucast (drop_bit 48 payload_length AND 0xFF),
         ucast (drop_bit 40 payload_length AND 0xFF),
         ucast (drop_bit 32 payload_length AND 0xFF),
         ucast (drop_bit 24 payload_length AND 0xFF),
         ucast (drop_bit 16 payload_length AND 0xFF),
         ucast (drop_bit 8 payload_length AND 0xFF),
         ucast (payload_length AND 0xFF)])"

text \<open>
  \<open>vws_serialize(f)\<close>. The first argument is what \<open>RAND_bytes(masking_key, 4)\<close> delivers:
  \<open>Some\<close> of the four key bytes, or \<open>None\<close> when the generator fails. It is only
  consulted for a masked frame. The result is the buffer's \<open>data\<close>, whose length is the
  buffer's \<open>size\<close>. The block of \<open>frame_size\<close> bytes is filled with \<open>header_size\<close> header
  bytes, the key and \<open>payload_length\<close> payload bytes read from \<open>f->data\<close>; when
  \<open>frame_size\<close> has wrapped or \<open>f->data\<close> is shorter than \<open>f->size\<close> the copy leaves its
  blocks.
\<close>

definition vws_serialize :: "byte list option \<Rightarrow> vws_frame option \<Rightarrow> failure + byte list" where
  "vws_serialize rnd fo =
     (case fo of
        None \<Rightarrow> Inl (Reported VE_RT)
      | Some f \<Rightarrow>
         (let payload_length = size_f f;
              header0 = push_bit 7 (fin f) OR opcode f;
              lh = length_header payload_length;
              header_size = (of_nat (1 + length lh) :: size_t);
              frame_size = header_size + payload_length;
              frame_size = (if mask_f f \<noteq> 0 then frame_size + 4 else frame_size);
              lh = (if mask_f f \<noteq> 0 then (hd lh OR 0x80) # tl lh else lh);
              header = header0 # lh
          in if mask_f f \<noteq> 0 then
               (case rnd of
                  None \<Rightarrow> Inl (Reported VE_RT)
                | Some masking_key \<Rightarrow>
                   if unat frame_size < unat header_size + 4 + unat payload_length
                      \<or> length (data f) < unat payload_length
                   then Inl MemoryFault
                   else Inr (header @ take 4 masking_key @
                             map (\<lambda>i. data f ! i XOR masking_key ! (i mod 4))
                                 [0 ..< unat payload_length]))
             else
               if unat frame_size < unat header_size + unat payload_length
                  \<or> length (data f) < unat payload_length
               then Inl MemoryFault
               else Inr (header @ take (unat payload_length) (data f))))"

text \<open>
  The loop of \<open>vws_deserialize\<close> that reads the extended length:
  \<open>f->size = (f->size << 8) | data[2 + i]\<close>, starting from 0.
\<close>

definition read_size :: "byte list \<Rightarrow> size_t" where
  "read_size bs = foldl (\<lambda>acc b. push_bit 8 acc OR ucast b) 0 bs"

text \<open>
  \<open>vws_deserialize(data, size, f, consumed)\<close>. The slice \<open>data[0 .. size)\<close> is the byte
  list (a slice is shorter than the address space), \<open>f\<close> and \<open>consumed\<close> are passed in and
  returned as the call leaves them. The comparisons against \<open>required_bytes\<close> are those
  of the code, on 64-bit values; where they let the parse go on although the slice is
  shorter than offset plus payload length, the copy loop reads outside the slice.
\<close>

definition vws_deserialize ::
  "byte list \<Rightarrow> vws_frame \<Rightarrow> size_t \<Rightarrow> failure + (fs_t \<times> vws_frame \<times> size_t)" where
  "vws_deserialize bs f consumed =
     (let size = (of_nat (length bs) :: size_t) in
      if 2 ^ 64 \<le> length bs then Inl MemoryFault
      else if size < 2 then Inr (FRAME_INCOMPLETE, f, consumed)
      else
        let f = f\<lparr> fin := drop_bit 7 (bs ! 0) AND 0x01, opcode := bs ! 0 AND 0x0F \<rparr>;
            f = f\<lparr> mask_f := drop_bit 7 (bs ! 1) AND 0x01, size_f := ucast (bs ! 1 AND 0x7F) \<rparr>;
            size_bytes = (if size_f f = 126 then 2 else if size_f f = 127 then 8 else 0 :: nat);
            required_bytes = (2 + of_nat size_bytes :: size_t)
        in if size < required_bytes then Inr (FRAME_INCOMPLETE, f, consumed)
           else
             let f = (if size_bytes > 0
                      then f\<lparr> size_f := read_size (take size_bytes (drop 2 bs)) \<rparr> else f)
             in if mask_f f \<noteq> 0 then
                  let required_bytes = required_bytes + (4 + size_f f)
                  in if size < required_bytes then Inr (FRAME_INCOMPLETE, f, consumed)
                     else
                       let f = f\<lparr> offset := of_nat (2 + size_bytes + 4) \<rparr>;
                           msk = take 4 (drop (2 + size_bytes) bs)
                       in if length bs < unat (offset f) + unat (size_f f) then Inl MemoryFault
                          else Inr (FRAME_COMPLETE,
                                 f\<lparr> data := map (\<lambda>i. bs ! (unat (offset f) + i) XOR msk ! (i mod 4))
                                                [0 ..< unat (size_f f)] \<rparr>,
                                 required_bytes)
                else
                  let required_bytes = required_bytes + size_f f
                  in if size < required_bytes then Inr (FRAME_INCOMPLETE, f, consumed)
                     else
                       let f = f\<lparr> offset := of_nat (2 + size_bytes) \<rparr>
                       in if length bs < unat (offset f) + unat (size_f f) then Inl MemoryFault
                          else Inr (FRAME_COMPLETE,
                                 f\<lparr> data := take (unat (size_f f)) (drop (unat (offset f)) bs) \<rparr>,
                                 required_bytes))"

section \<open>Connection, thread and operating-system state\<close>

text \<open>The connection flags \<open>cnx_flags_t\<close> and the close status \<open>WS_CLOSE_NORMAL\<close>.\<close>

definition CNX_CLOSED :: "64 word" where "CNX_CLOSED = 0"
definition CNX_CONNECTED :: "64 word" where "CNX_CONNECTED = push_bit 1 1"
definition CNX_CLOSING :: "64 word" where "CNX_CLOSING = push_bit 2 1"
definition CNX_SERVER :: "64 word" where "CNX_SERVER = push_bit 4 1"

definition WS_CLOSE_NORMAL :: "16 word" where "WS_CLOSE_NORMAL = 1000"

text \<open>
  The parsed URL as far as \<open>cnx_connect\<close> reads it; a missing \<open>host\<close> or \<open>port\<close> is
  \<open>NULL\<close>.
\<close>

record vws_url_data =
  protocol :: string
  host :: "string option"
  port :: "string option"

text \<open>
  \<open>struct vws_cnx\<close> with its embedded \<open>vws_socket\<close>: the descriptor \<open>sockfd\<close>, whether
  an SSL object is attached, the receive buffer \<open>base.buffer\<close> (its \<open>size\<close> bytes), the
  flags, the URL (\<open>None\<close> for \<open>NULL\<close>), the queue of received data frames with the queue's
  first element at the head of the list, and whether a disconnect hook is registered.
\<close>

record vws_cnx =
  sockfd :: int
  ssl :: bool
  buffer :: "byte list"
  flags :: "64 word"
  url :: "vws_url_data option"
  queue :: "vws_frame list"
  disconnect :: bool

text \<open>
  What the operating system answers to one \<open>vws_socket_write\<close> that reaches \<open>poll\<close>:
  \<open>poll\<close> fails, times out, reports an event other than \<open>POLLOUT\<close>, or the socket is
  writable and \<open>send\<close>/\<open>SSL_write\<close> accepts a number of bytes or fails.
\<close>

datatype io_event = PollError | PollTimeout | PollOther | Sent nat | SendError

text \<open>
  The state outside the connection: the per-thread last-error kind \<open>vws.e.code\<close>; the
  bytes the peer socket has accepted so far; the answers the operating system will give to
  the coming writes; the keys the coming successful \<open>RAND_bytes\<close> calls deliver (when
  none is left the generator fails); the number of calls of the user's disconnect hook;
  and the frames handed to \<open>vws_frame_free\<close>, in order.
\<close>

record world =
  e_code :: error_code
  wire :: "byte list"
  io :: "io_event list"
  rand :: "byte list list"
  hook_calls :: nat
  freed :: "vws_frame list"

text \<open>
  \<open>vws.error(code, message)\<close> as \<open>vrtql_error_default_submit\<close> does it: the last error
  takes the code (the default handler also prints the message).
\<close>

definition error :: "error_code \<Rightarrow> world \<Rightarrow> world" where
  "error code w = w\<lparr> e_code := code \<rparr>"

text \<open>
  Modelled from the spec: \<open>vws.success()\<close>, whose definition is not among the sources.
  Each operation sets the per-thread last-error; success leaves the kind NONE, as
  \<open>vrtql_error_clear_default\<close> does.
\<close>

definition success :: "world \<Rightarrow> world" where
  "success w = w\<lparr> e_code := VE_NONE \<rparr>"

text \<open>
  Modelled from the spec: \<open>vws_set_flag(&flags, flag)\<close>, declared in a header that is not
  among the sources; it sets the flag in the flag-set.
\<close>

definition vws_set_flag :: "64 word \<Rightarrow> 64 word \<Rightarrow> 64 word" where
  "vws_set_flag fl flag = fl OR flag"

text \<open>\<open>vws_frame_free(f)\<close>, recorded in the world.\<close>

definition vws_frame_free :: "vws_frame \<Rightarrow> world \<Rightarrow> world" where
  "vws_frame_free f w = w\<lparr> freed := freed w @ [f] \<rparr>"

text \<open>\<open>RAND_bytes(masking_key, 4)\<close>: the next key, or failure.\<close>

definition RAND_bytes :: "world \<Rightarrow> byte list option \<times> world" where
  "RAND_bytes w = (case rand w of [] \<Rightarrow> (None, w) | k # ks \<Rightarrow> (Some k, w\<lparr> rand := ks \<rparr>))"

section \<open>Socket\<close>

definition vws_socket_is_connected :: "vws_cnx \<Rightarrow> bool" where
  "vws_socket_is_connected c \<longleftrightarrow> sockfd c > 0"

text \<open>
  \<open>vws_socket_write(c, data, size)\<close> returns the number of bytes written, 0 on timeout
  or -1; the world records the bytes the socket took. With \<open>SSL_write\<close> a failure sets
  no error kind.
\<close>

definition vws_socket_write :: "vws_cnx \<Rightarrow> byte list \<Rightarrow> world \<Rightarrow> failure + (int \<times> world)" where
  "vws_socket_write c d w0 =
     (let w = success w0 in
      if \<not> vws_socket_is_connected c then Inr (-1, error VE_RT w)
      else if d = [] then Inr (-1, error VE_WARN w)
      else
        (case io w of
           [] \<Rightarrow> Inl NoAnswer
         | ev # evs \<Rightarrow>
            (let w = w\<lparr> io := evs \<rparr> in
             case ev of
               PollError \<Rightarrow> Inr (-1, error VE_SYS w)
             | PollTimeout \<Rightarrow> Inr (0, error VE_TIMEOUT w)
             | PollOther \<Rightarrow> Inr (-1, error VE_SYS w)
             | Sent n \<Rightarrow> Inr (int (min n (length d)), w\<lparr> wire := wire w @ take n d \<rparr>)
             | SendError \<Rightarrow> Inr (-1, if ssl c then w else error VE_SYS w))))"

text \<open>\<open>vws_socket_close\<close> and \<open>vws_socket_disconnect\<close>; the latter ends with
  \<open>vrtql.success()\<close>, which overwrites what a failing \<open>close\<close> reported.\<close>

definition vws_socket_close :: "vws_cnx \<Rightarrow> vws_cnx" where
  "vws_socket_close c = (let c = c\<lparr> ssl := False \<rparr> in if sockfd c > 0 then c\<lparr> sockfd := -1 \<rparr> else c)"

definition vws_socket_disconnect :: "vws_cnx \<Rightarrow> world \<Rightarrow> vws_cnx \<times> world" where
  "vws_socket_disconnect c w =
     (if \<not> vws_socket_is_connected c then (c, w) else (vws_socket_close c, success w))"

section \<open>Connection API\<close>

definition vws_cnx_is_connected :: "vws_cnx \<Rightarrow> world \<Rightarrow> bool \<times> world" where
  "vws_cnx_is_connected c w =
     (if \<not> vws_socket_is_connected c then (False, error VE_SOCKET w) else (True, w))"

text \<open>
  \<open>vws_generate_close_frame()\<close> and \<open>vws_generate_pong_frame(ping_data, s)\<close>. The two
  bytes of \<open>htons(WS_CLOSE_NORMAL)\<close> in memory are the status in network byte order.
  \<open>vws_serialize_io\<close> is the call \<open>vws_serialize(f)\<close> in the world: it draws the key of
  a masked frame, and a successful \<open>vws_serialize\<close> has freed its frame and called
  \<open>vws.success()\<close>.
\<close>

definition htons_bytes :: "16 word \<Rightarrow> byte list" where
  "htons_bytes x = [ucast (drop_bit 8 x), ucast x]"

definition vws_serialize_io :: "vws_frame \<Rightarrow> world \<Rightarrow> (failure + byte list) \<times> world" where
  "vws_serialize_io f w =
     (let (rnd, w') = (if mask_f f \<noteq> 0 then RAND_bytes w else (None, w));
          r = vws_serialize rnd (Some f)
      in case r of
           Inr b \<Rightarrow> (r, success (vws_frame_free f w'))
         | Inl (Reported code) \<Rightarrow> (r, error code w')
         | Inl _ \<Rightarrow> (r, w'))"

definition vws_generate_close_frame :: "world \<Rightarrow> (failure + byte list) \<times> world" where
  "vws_generate_close_frame w =
     vws_serialize_io (vws_frame_new (htons_bytes WS_CLOSE_NORMAL) 2 CLOSE_FRAME) w"

definition vws_generate_pong_frame ::
  "byte list \<Rightarrow> size_t \<Rightarrow> world \<Rightarrow> (failure + byte list) \<times> world" where
  "vws_generate_pong_frame ping_data s w =
     vws_serialize_io (vws_frame_new ping_data s PONG_FRAME) w"


text \<open>
  \<open>vws_disconnect(c)\<close>. The loop writes \<open>buffer->data + i\<close> until all bytes are out or
  a write returns a negative number. The disconnect hook is user code: the model counts
  its calls and takes it to leave the connection alone. A null buffer from
  \<open>vws_generate_close_frame\<close> is dereferenced.
\<close>

function write_loop :: "vws_cnx \<Rightarrow> byte list \<Rightarrow> nat \<Rightarrow> world \<Rightarrow> failure + world" where
  "write_loop c b i w =
     (if i < length b then
        (case vws_socket_write c (drop i b) w of
           Inl e \<Rightarrow> Inl e
         | Inr (n, w') \<Rightarrow> if n < 0 then Inr w' else write_loop c b (i + nat n) w')
      else Inr w)"
  by pat_completeness auto
termination
proof (relation "measure (\<lambda>(c, b, i, w). length (io w))", goal_cases)
  case 1
  show ?case by simp
next
  case (2 c b i w x2 n w')
  then have "vws_socket_write c (drop i b) w = Inr (n, w')" and "\<not> n < 0" by simp_all
  then have "length (io w') < length (io w)"
    by (auto simp add: vws_socket_write_def Let_def success_def error_def
        split: if_splits list.splits io_event.splits)
  then show ?case by simp
qed

declare write_loop.simps [simp del]

definition vws_disconnect :: "vws_cnx \<Rightarrow> world \<Rightarrow> failure + (vws_cnx \<times> world)" where
  "vws_disconnect c w0 =
     (let (connected, w) = vws_cnx_is_connected c w0 in
      if \<not> connected then Inr (c, w)
      else
        let w = (if disconnect c then w\<lparr> hook_calls := hook_calls w + 1 \<rparr> else w);
            c = c\<lparr> flags := CNX_CLOSED \<rparr>;
            (r, w) = vws_generate_close_frame w
        in case r of
             Inl e \<Rightarrow> Inl MemoryFault
           | Inr b \<Rightarrow>
              (case write_loop c b 0 w of
                 Inl e \<Rightarrow> Inl e
               | Inr w \<Rightarrow> Inr (vws_socket_disconnect c w)))"

section \<open>Messaging API\<close>

text \<open>
  \<open>vws_frame_send(c, frame)\<close> returns the result of the write or -1. A null buffer from
  \<open>vws_serialize\<close> is dereferenced. The send functions for text and binary data build a
  frame and pass it on; a C string is its bytes before the terminating zero.
\<close>

definition vws_frame_send :: "vws_cnx \<Rightarrow> vws_frame \<Rightarrow> world \<Rightarrow> failure + (int \<times> world)" where
  "vws_frame_send c frame w0 =
     (let (connected, w) = vws_cnx_is_connected c w0 in
      if \<not> connected then Inr (-1, w)
      else
        let (r, w) = vws_serialize_io frame w
        in case r of
             Inl e \<Rightarrow> Inl MemoryFault
           | Inr binary \<Rightarrow>
              if binary \<noteq> [] then
                (case vws_socket_write c binary w of
                   Inl e \<Rightarrow> Inl e
                 | Inr (n, w) \<Rightarrow>
                    (let (connected, w) = vws_cnx_is_connected c w in
                     if \<not> connected then Inr (-1, w) else Inr (n, success w)))
              else Inr (0, success w))"

definition vws_frame_send_data ::
  "vws_cnx \<Rightarrow> byte list \<Rightarrow> size_t \<Rightarrow> byte \<Rightarrow> world \<Rightarrow> failure + (int \<times> world)" where
  "vws_frame_send_data c d sz oc w = vws_frame_send c (vws_frame_new d sz oc) w"

definition vws_msg_send_text :: "vws_cnx \<Rightarrow> byte list \<Rightarrow> world \<Rightarrow> failure + (int \<times> world)" where
  "vws_msg_send_text c d w = vws_frame_send_data c d (of_nat (length d)) 0x1 w"

definition vws_msg_send_binary ::
  "vws_cnx \<Rightarrow> byte list \<Rightarrow> size_t \<Rightarrow> world \<Rightarrow> failure + (int \<times> world)" where
  "vws_msg_send_binary c d sz w = vws_frame_send_data c d sz 0x2 w"

section \<open>Inbound frames\<close>

text \<open>
  \<open>process_frame(c, f)\<close>, the default of the hook \<open>c->process\<close>. \<open>sc_queue_add_first\<close>
  puts the frame at the head of the queue. The result of the write is not looked at; a
  null buffer from the frame generators is dereferenced.
\<close>

definition process_frame :: "vws_cnx \<Rightarrow> vws_frame \<Rightarrow> world \<Rightarrow> failure + (vws_cnx \<times> world)" where
  "process_frame c f w =
     (if opcode f = CLOSE_FRAME then
        (let c = c\<lparr> flags := vws_set_flag (flags c) CNX_CLOSING \<rparr>;
             (r, w) = vws_generate_close_frame w
         in case r of
              Inl e \<Rightarrow> Inl MemoryFault
            | Inr b \<Rightarrow>
               (case vws_socket_write c b w of
                  Inl e \<Rightarrow> Inl e
                | Inr (n, w) \<Rightarrow> Inr (c, success (vws_frame_free f w))))
      else if opcode f = TEXT_FRAME \<or> opcode f = BINARY_FRAME \<or> opcode f = CONTINUATION_FRAME then
        Inr (c\<lparr> queue := f # queue c \<rparr>, success w)
      else if opcode f = PING_FRAME then
        (let (r, w) = vws_generate_pong_frame (data f) (size_f f) w
         in case r of
              Inl e \<Rightarrow> Inl MemoryFault
            | Inr b \<Rightarrow>
               (case vws_socket_write c b w of
                  Inl e \<Rightarrow> Inl e
                | Inr (n, w) \<Rightarrow> Inr (c, success (vws_frame_free f w))))
      else if opcode f = PONG_FRAME then Inr (c, success (vws_frame_free f w))
      else Inr (c, success (vws_frame_free f w)))"

text \<open>\<open>vrtql_buffer_drain(buffer, size)\<close> on the buffer's bytes.\<close>

definition vws_buffer_drain :: "byte list \<Rightarrow> size_t \<Rightarrow> byte list" where
  "vws_buffer_drain b n = (if b = [] then b else if unat n \<ge> length b then [] else drop (unat n) b)"

text \<open>
  \<open>vws_cnx_ingress(c)\<close>: the loop with its \<open>total_consumed\<close>; the result is
  \<open>ssize_t\<close>.
\<close>

function ingress_loop :: "vws_cnx \<Rightarrow> world \<Rightarrow> size_t \<Rightarrow> failure + (int \<times> vws_cnx \<times> world)" where
  "ingress_loop c w total_consumed =
     (if buffer c = [] then Inr (sint total_consumed, c, success w)
      else
        (case vws_deserialize (buffer c) (vws_frame_new [] 0 TEXT_FRAME) 0 of
           Inl e \<Rightarrow> Inl e
         | Inr (rc, frame, consumed) \<Rightarrow>
            if rc = FRAME_ERROR then Inr (0, c, vws_frame_free frame (error VE_WARN w))
            else if rc = FRAME_INCOMPLETE then Inr (0, c, vws_frame_free frame w)
            else
              (case process_frame c frame w of
                 Inl e \<Rightarrow> Inl e
               | Inr (c', w') \<Rightarrow>
                  ingress_loop (c'\<lparr> buffer := vws_buffer_drain (buffer c') consumed \<rparr>) w'
                    (total_consumed + consumed))))"
  by pat_completeness auto
termination
proof (relation "measure (\<lambda>(c, w, t). length (buffer c))", goal_cases)
  case 1
  show ?case by simp
next
  case (2 c w t x2 rc y frame consumed x2a c' w')
  then have ne: "buffer c \<noteq> []"
    and d: "vws_deserialize (buffer c) (vws_frame_new [] 0 TEXT_FRAME) 0 = Inr (rc, frame, consumed)"
    and rc: "rc \<noteq> FRAME_ERROR" "rc \<noteq> FRAME_INCOMPLETE"
    and p: "process_frame c frame w = Inr (c', w')" by simp_all
  have b: "buffer c' = buffer c"
    using p by (auto simp add: process_frame_def Let_def split: if_splits prod.splits sum.splits)
  have nw: "of_nat k + x \<noteq> 0" if "k + unat x < 2 ^ 64" "0 < k" for k and x :: size_t
  proof
    assume z: "of_nat k + x = 0"
    have "unat (of_nat k + x) = (k mod 2 ^ 64 + unat x) mod 2 ^ 64"
      by (simp add: unat_word_ariths unat_of_nat)
    also have "\<dots> = k + unat x" using that by simp
    finally show False using that z by simp
  qed
  have "consumed \<noteq> 0"
    using d rc nw[of 2] nw[of 4] nw[of 6] nw[of 8] nw[of 10] nw[of 14]
    by (auto simp add: vws_deserialize_def Let_def split: if_splits)
  then have "0 < unat consumed" by (simp add: unat_gt_0)
  then have "length (vws_buffer_drain (buffer c) consumed) < length (buffer c)"
    using ne by (simp add: vws_buffer_drain_def)
  then show ?case using b by simp
qed

declare ingress_loop.simps [simp del]

definition vws_cnx_ingress :: "vws_cnx \<Rightarrow> world \<Rightarrow> failure + (int \<times> vws_cnx \<times> world)" where
  "vws_cnx_ingress c w = ingress_loop c w 0"


section \<open>Message reassembly\<close>

text \<open>\<open>struct vws_msg\<close>: the opcode and the bytes of the message buffer.\<close>

record vws_msg =
  opcode_m :: byte
  data_m :: "byte list"

definition vws_msg_new :: vws_msg where
  "vws_msg_new = \<lparr> opcode_m = 0, data_m = [] \<rparr>"

text \<open>\<open>has_complete_message(c)\<close>: \<open>sc_queue_foreach\<close> walks the queue from its first
  element.\<close>

fun has_complete_loop :: "vws_frame list \<Rightarrow> bool" where
  "has_complete_loop [] = False"
| "has_complete_loop (f # fs) = (if fin f = 1 then True else has_complete_loop fs)"

definition has_complete_message :: "vws_cnx \<Rightarrow> bool" where
  "has_complete_message c = has_complete_loop (queue c)"

text \<open>
  The loop of \<open>vws_msg_pop\<close>. \<open>sc_queue_del_last\<close> takes the last element of the queue;
  on an empty queue it has no element to return. \<open>vws_buffer_append\<close> copies \<open>f->size\<close>
  bytes from \<open>f->data\<close>.
\<close>

function pop_loop ::
  "vws_frame list \<Rightarrow> vws_msg \<Rightarrow> world \<Rightarrow> failure + (vws_msg \<times> vws_frame list \<times> world)" where
  "pop_loop q m w =
     (if q = [] then Inl MemoryFault
      else
        let f = last q;
            q = butlast q;
            m = (if opcode_m m = 100 then m\<lparr> opcode_m := opcode f \<rparr> else m)
        in if length (data f) < unat (size_f f) then Inl MemoryFault
           else
             let m = m\<lparr> data_m := data_m m @ take (unat (size_f f)) (data f) \<rparr>;
                 complete = (fin f = 1);
                 w = vws_frame_free f w
             in if complete then Inr (m, q, w) else pop_loop q m w)"
  by pat_completeness auto
termination
  by (relation "measure (\<lambda>(q, m, w). length q)") auto

declare pop_loop.simps [simp del]

definition vws_msg_pop :: "vws_cnx \<Rightarrow> world \<Rightarrow> failure + (vws_msg option \<times> vws_cnx \<times> world)" where
  "vws_msg_pop c w =
     (if \<not> has_complete_message c then Inr (None, c, w)
      else
        (case pop_loop (queue c) (vws_msg_new\<lparr> opcode_m := 100 \<rparr>) w of
           Inl e \<Rightarrow> Inl e
         | Inr (m, q, w) \<Rightarrow> Inr (Some m, c\<lparr> queue := q \<rparr>, w)))"

section \<open>Connecting\<close>

text \<open>
  What the operating system and the peer answer while \<open>vws_socket_connect\<close> runs: whether
  \<open>SSL_CTX_new\<close> and \<open>SSL_new\<close> deliver an object, the descriptor that
  \<open>connect_to_host(host, port)\<close> returns, and whether \<open>socket_set_timeout\<close>,
  \<open>SSL_connect\<close> and \<open>socket_set_nonblocking\<close> succeed.
\<close>

record os_connect =
  ssl_ctx_new :: bool
  ssl_new :: bool
  connect_to_host :: "string \<Rightarrow> int \<Rightarrow> int"
  set_timeout :: bool
  ssl_connect :: bool
  set_nonblocking :: bool

text \<open>
  \<open>vws_socket_connect(c, host, port, ssl)\<close>. The flag \<open>CNX_SSL_INIT\<close> of the per-thread
  environment is the argument and result \<open>ssl_init\<close>; the handshake hook \<open>c->hs\<close> is the
  argument \<open>hs\<close> (\<open>None\<close> for \<open>NULL\<close>), a function on connection and world.
\<close>

type_synonym handshake = "vws_cnx \<Rightarrow> world \<Rightarrow> bool \<times> vws_cnx \<times> world"

definition vws_socket_connect ::
  "os_connect \<Rightarrow> handshake option \<Rightarrow> vws_cnx \<Rightarrow> string \<Rightarrow> int \<Rightarrow> bool \<Rightarrow> bool \<Rightarrow> world
   \<Rightarrow> bool \<times> vws_cnx \<times> bool \<times> world" where
  "vws_socket_connect os hs c hst prt use_ssl ssl_init w =
     (if use_ssl \<and> \<not> ssl_init \<and> \<not> ssl_ctx_new os then (False, c, ssl_init, error VE_SYS w)
      else if use_ssl \<and> \<not> ssl_init \<and> \<not> ssl_new os then
        (False, vws_socket_close c, ssl_init, error VE_SYS w)
      else
        let (c, ssl_init) = (if use_ssl \<and> \<not> ssl_init then (c\<lparr> ssl := True \<rparr>, True) else (c, ssl_init));
            c = c\<lparr> sockfd := connect_to_host os hst prt \<rparr>
        in if sockfd c < 0 then (False, vws_socket_close c, ssl_init, error VE_SYS w)
           else if \<not> set_timeout os then (False, vws_socket_close c, ssl_init, error VE_SYS w)
           else if ssl c \<and> \<not> ssl_connect os then (False, vws_socket_close c, ssl_init, error VE_SYS w)
           else
             let (ok, c, w) = (case hs of None \<Rightarrow> (True, c, w) | Some h \<Rightarrow> h c w)
             in if \<not> ok then (False, vws_socket_close c, ssl_init, error VE_SYS w)
                else if \<not> set_nonblocking os then (False, vws_socket_close c, ssl_init, error VE_SYS w)
                else (True, c, ssl_init, success w))"

text \<open>
  \<open>atoi\<close>: white space is skipped, then an optional sign and the decimal digits that
  follow are read (a value outside \<open>int\<close> is undefined in C and not modelled).
\<close>

fun atoi_digits :: "int \<Rightarrow> string \<Rightarrow> int" where
  "atoi_digits acc [] = acc"
| "atoi_digits acc (ch # cs) =
     (if 48 \<le> (of_char ch :: nat) \<and> (of_char ch :: nat) \<le> 57
      then atoi_digits (10 * acc + (int (of_char ch) - 48)) cs else acc)"

definition isspace :: "char \<Rightarrow> bool" where
  "isspace ch \<longleftrightarrow> (of_char ch :: nat) = 32 \<or> (9 \<le> (of_char ch :: nat) \<and> (of_char ch :: nat) \<le> 13)"

definition atoi :: "string \<Rightarrow> int" where
  "atoi s =
     (case dropWhile isspace s of
        [] \<Rightarrow> 0
      | ch # cs \<Rightarrow>
         if ch = CHR ''-'' then - atoi_digits 0 cs
         else if ch = CHR ''+'' then atoi_digits 0 cs
         else atoi_digits 0 (ch # cs))"

text \<open>\<open>cnx_connect(c)\<close>; it reads through \<open>c->url\<close>, which must not be \<open>NULL\<close>.\<close>

definition cnx_connect ::
  "os_connect \<Rightarrow> handshake option \<Rightarrow> vws_cnx \<Rightarrow> bool \<Rightarrow> world
   \<Rightarrow> failure + (bool \<times> vws_cnx \<times> bool \<times> world)" where
  "cnx_connect os hs c ssl_init w =
     (case url c of
        None \<Rightarrow> Inl MemoryFault
      | Some u \<Rightarrow>
         (case host u of
            None \<Rightarrow> Inr (False, c, ssl_init, error VE_MEM w)
          | Some h \<Rightarrow>
             (let default_port = (if protocol u = ''wss'' then ''443'' else ''80'');
                  prt = (case port u of Some p \<Rightarrow> p | None \<Rightarrow> default_port);
                  use_ssl = (protocol u = ''wss'')
              in Inr (vws_socket_connect os hs c h (atoi prt) use_ssl ssl_init w))))"

text \<open>\<open>vws_reconnect(c)\<close>.\<close>

definition vws_reconnect ::
  "os_connect \<Rightarrow> handshake option \<Rightarrow> vws_cnx \<Rightarrow> bool \<Rightarrow> world
   \<Rightarrow> failure + (bool \<times> vws_cnx \<times> bool \<times> world)" where
  "vws_reconnect os hs c ssl_init w0 =
     (let (connected, w) = vws_cnx_is_connected c w0 in
      if connected then Inr (True, c, ssl_init, w)
      else if url c \<noteq> None then
        (case cnx_connect os hs c ssl_init w of
           Inl e \<Rightarrow> Inl e
         | Inr (r, c', ssl_init', w') \<Rightarrow> Inr (False, c', ssl_init', w'))
      else Inr (False, c, ssl_init, w))"


section \<open>The wire format as the specification words it\<close>

text \<open>
  For comparison with \<open>vws_serialize\<close>: the length field of byte 1 and the extended length
  that follows it, for a payload of \<open>n\<close> bytes, with the \<open>k\<close>-byte big-endian
  representation of a number written by division.
\<close>

definition big_endian :: "nat \<Rightarrow> nat \<Rightarrow> byte list" where
  "big_endian k n = map (\<lambda>i. of_nat (n div 256 ^ (k - 1 - i) mod 256)) [0 ..< k]"

definition length_field :: "nat \<Rightarrow> byte" where
  "length_field n = (if n \<le> 125 then of_nat n else if n \<le> 65535 then 126 else 127)"

definition extended_length :: "nat \<Rightarrow> byte list" where
  "extended_length n =
     (if n \<le> 125 then [] else if n \<le> 65535 then big_endian 2 n else big_endian 8 n)"

section \<open>A message in the queue as the specification words it\<close>

text \<open>
  For comparison with \<open>vws_msg_pop\<close>: the queued frames in the order in which they are
  dequeued (oldest first, the reverse of the list), up to and including the first one with
  \<open>fin\<close> set.
\<close>

definition message_run :: "vws_frame list \<Rightarrow> vws_frame list" where
  "message_run q =
     takeWhile (\<lambda>f. fin f \<noteq> 1) (rev q) @ take 1 (dropWhile (\<lambda>f. fin f \<noteq> 1) (rev q))"

section \<open>Handshake: the accept key\<close>

text \<open>
  \<open>SHA1(d, n, md)\<close> is OpenSSL's; the repository calls it and does not contain it. It is
  the hash function of FIPS 180-4: the message is padded with the byte 0x80, zeros and its
  length in bits as 8 big-endian bytes to a multiple of 64 bytes; each block of 16
  big-endian words is run through 80 rounds over a sliding window of the message schedule
  \<open>W[t] = rotl 1 (W[t-3] XOR W[t-8] XOR W[t-14] XOR W[t-16])\<close>; the digest is the five
  state words in big-endian bytes.
\<close>

type_synonym u32 = "32 word"

definition rotl :: "nat \<Rightarrow> u32 \<Rightarrow> u32" where
  "rotl n x = push_bit n x OR drop_bit (32 - n) x"

definition be32 :: "byte list \<Rightarrow> u32" where
  "be32 bs = foldl (\<lambda>acc b. push_bit 8 acc OR ucast b) 0 bs"

definition sha1_pad :: "byte list \<Rightarrow> byte list" where
  "sha1_pad m =
     m @ [0x80] @ map (\<lambda>i. 0) [0 ..< (119 - length m mod 64) mod 64] @
     map (\<lambda>i. of_nat ((8 * length m) div 256 ^ (7 - i) mod 256)) [0 ..< 8]"

definition sha1_f :: "nat \<Rightarrow> u32 \<Rightarrow> u32 \<Rightarrow> u32 \<Rightarrow> u32" where
  "sha1_f t b c d =
     (if t < 20 then (b AND c) OR (NOT b AND d)
      else if t < 40 then b XOR c XOR d
      else if t < 60 then (b AND c) OR (b AND d) OR (c AND d)
      else b XOR c XOR d)"

definition sha1_k :: "nat \<Rightarrow> u32" where
  "sha1_k t = (if t < 20 then 0x5A827999 else if t < 40 then 0x6ED9EBA1
               else if t < 60 then 0x8F1BBCDC else 0xCA62C1D6)"

type_synonym sha_state = "u32 \<times> u32 \<times> u32 \<times> u32 \<times> u32"

fun sha1_round :: "nat \<Rightarrow> u32 list \<times> sha_state \<Rightarrow> u32 list \<times> sha_state" where
  "sha1_round t (w0 # w1 # w2 # w3 # w4 # w5 # w6 # w7 # w8 # w9 # w10 # w11 # w12 # w13 # w14 # w15 # ws,
                 (a, b, c, d, e)) =
     ([w1, w2, w3, w4, w5, w6, w7, w8, w9, w10, w11, w12, w13, w14, w15,
       rotl 1 (w13 XOR w8 XOR w2 XOR w0)],
      (rotl 5 a + sha1_f t b c d + e + sha1_k t + w0, a, rotl 30 b, c, d))"
| "sha1_round t s = s"

definition sha1_block :: "sha_state \<Rightarrow> byte list \<Rightarrow> sha_state" where
  "sha1_block h blk =
     (case h of (h0, h1, h2, h3, h4) \<Rightarrow>
        (case snd (fold sha1_round [0 ..< 80]
                     (map (\<lambda>i. be32 (take 4 (drop (4 * i) blk))) [0 ..< 16], h)) of
           (a, b, c, d, e) \<Rightarrow> (h0 + a, h1 + b, h2 + c, h3 + d, h4 + e)))"

definition word_bytes :: "u32 \<Rightarrow> byte list" where
  "word_bytes x = [ucast (drop_bit 24 x), ucast (drop_bit 16 x), ucast (drop_bit 8 x), ucast x]"

definition SHA1 :: "byte list \<Rightarrow> byte list" where
  "SHA1 m =
     (case foldl sha1_block (0x67452301, 0xEFCDAB89, 0x98BADCFE, 0x10325476, 0xC3D2E1F0)
             (map (\<lambda>i. take 64 (drop (64 * i) (sha1_pad m))) [0 ..< length (sha1_pad m) div 64]) of
        (h0, h1, h2, h3, h4) \<Rightarrow>
          word_bytes h0 @ word_bytes h1 @ word_bytes h2 @ word_bytes h3 @ word_bytes h4)"


text \<open>
  \<open>vws_base64_encode(data, length)\<close> runs OpenSSL's base64 filter with
  \<open>BIO_FLAGS_BASE64_NO_NL\<close>: the encoding of RFC 4648 with its alphabet and \<open>=\<close> padding,
  on one line.
\<close>

definition base64_alphabet :: string where
  "base64_alphabet = ''ABCDEFGHIJKLMNOPQRSTUVWXYZabcdefghijklmnopqrstuvwxyz0123456789+/''"

definition base64_char :: "byte \<Rightarrow> char" where
  "base64_char x = base64_alphabet ! unat (x AND 0x3F)"

fun vws_base64_encode :: "byte list \<Rightarrow> string" where
  "vws_base64_encode (a # b # c # rest) =
     [base64_char (drop_bit 2 a),
      base64_char (push_bit 4 (a AND 0x03) OR drop_bit 4 b),
      base64_char (push_bit 2 (b AND 0x0F) OR drop_bit 6 c),
      base64_char (c AND 0x3F)] @ vws_base64_encode rest"
| "vws_base64_encode [a, b] =
     [base64_char (drop_bit 2 a),
      base64_char (push_bit 4 (a AND 0x03) OR drop_bit 4 b),
      base64_char (push_bit 2 (b AND 0x0F)),
      CHR ''='']"
| "vws_base64_encode [a] =
     [base64_char (drop_bit 2 a), base64_char (push_bit 4 (a AND 0x03)), CHR ''='', CHR ''='']"
| "vws_base64_encode [] = []"

text \<open>
  C strings are the characters before the terminating zero. \<open>strcmp\<close> returns zero, or
  the difference of the first two characters that differ (a missing character is the
  terminator).
\<close>

fun strcmp :: "string \<Rightarrow> string \<Rightarrow> int" where
  "strcmp [] [] = 0"
| "strcmp [] (y # ys) = - of_char y"
| "strcmp (x # xs) [] = of_char x"
| "strcmp (x # xs) (y # ys) = (if x = y then strcmp xs ys else of_char x - of_char y)"

text \<open>\<open>vws_accept_key(key)\<close> and \<open>verify_handshake(key, response)\<close>.\<close>

definition vws_accept_key :: "string \<Rightarrow> string" where
  "vws_accept_key key =
     (let websocket_guid = ''258EAFA5-E914-47DA-95CA-C5AB0DC85B11'';
          input = key @ websocket_guid;
          hash = SHA1 (map of_char input)
      in vws_base64_encode hash)"

definition verify_handshake :: "string \<Rightarrow> string \<Rightarrow> int" where
  "verify_handshake key response =
     (let hash = vws_accept_key key; result = strcmp hash response
      in if result = 0 then 1 else 0)"


section \<open>The extent a header declares\<close>

text \<open>
  For comparison with the checks of \<open>vws_deserialize\<close>: the number of bytes of the frame
  that a slice starts with, as its header declares it, without wrap-around: 2 header bytes,
  the extended length, the key of a masked frame and the payload. It is \<open>None\<close> while the
  slice ends inside the header.
\<close>

definition declared_extent :: "byte list \<Rightarrow> nat option" where
  "declared_extent bs =
     (if length bs < 2 then None
      else
        let lf = (ucast (bs ! 1 AND 0x7F) :: size_t);
            size_bytes = (if lf = 126 then 2 else if lf = 127 then 8 else 0 :: nat);
            masked = (drop_bit 7 (bs ! 1) AND 0x01 \<noteq> 0)
        in if length bs < 2 + size_bytes then None
           else Some (2 + size_bytes + (if masked then 4 else 0) +
                      (if size_bytes = 0 then unat lf
                       else unat (read_size (take size_bytes (drop 2 bs))))))"
section \<open>Bits and bytes\<close>

lemma bit_lt_pow: "(x::'a::len word) < 2 ^ k \<Longrightarrow> bit x n \<Longrightarrow> n < k"
  using less_mask_eq[of x k] by (metis bit_and_iff bit_mask_iff)

lemma byte_le1_bit: "(f::byte) \<le> 1 \<Longrightarrow> bit f n \<Longrightarrow> n = 0"
  using bit_lt_pow[of f 1 n] by (simp add: word_le_nat_alt word_less_nat_alt)

lemma byte_le15_bit: "(f::byte) \<le> 15 \<Longrightarrow> bit f n \<Longrightarrow> n < 4"
  using bit_lt_pow[of f 4 n] by (simp add: word_le_nat_alt word_less_nat_alt)

lemma size_le125_bit: "(n::size_t) \<le> 125 \<Longrightarrow> bit n k \<Longrightarrow> k < 7"
  using bit_lt_pow[of n 7 k] by (simp add: word_le_nat_alt word_less_nat_alt)

lemma size_le65535_bit: "(n::size_t) \<le> 65535 \<Longrightarrow> bit n k \<Longrightarrow> k < 16"
  using bit_lt_pow[of n 16 k] by (simp add: word_le_nat_alt word_less_nat_alt)

lemma bit_0x0F: "bit (0x0F :: int) n \<longleftrightarrow> n < 4"
proof -
  have e: "(0x0F :: int) = mask 4" by (simp add: mask_eq_exp_minus_1)
  show ?thesis unfolding e by (auto simp add: bit_simps)
qed

lemma bit_0x7F: "bit (0x7F :: int) n \<longleftrightarrow> n < 7"
proof -
  have e: "(0x7F :: int) = mask 7" by (simp add: mask_eq_exp_minus_1)
  show ?thesis unfolding e by (auto simp add: bit_simps)
qed

lemma bit_0xFF: "bit (0xFF :: int) n \<longleftrightarrow> n < 8"
proof -
  have e: "(0xFF :: int) = mask 8" by (simp add: mask_eq_exp_minus_1)
  show ?thesis unfolding e by (auto simp add: bit_simps)
qed

lemma bit_0x80: "bit (0x80 :: int) n \<longleftrightarrow> n = 7"
proof -
  have e: "(0x80 :: int) = 2 ^ 7" by simp
  show ?thesis by (simp only: e bit_exp_iff) auto
qed

lemmas numeral_bits = bit_0x0F bit_0x7F bit_0xFF bit_0x80

lemma opcode_bits_roundtrip: "f \<le> 1 \<Longrightarrow> oc \<le> 0x0F \<Longrightarrow> (push_bit 7 f OR oc) AND 0x0F = (oc::byte)"
  apply (rule bit_word_eqI)
  apply (auto simp add: numeral_bits bit_simps dest: byte_le1_bit byte_le15_bit)
  done

lemma fin_bit_roundtrip: "f \<le> 1 \<Longrightarrow> oc \<le> 0x0F \<Longrightarrow> drop_bit 7 (push_bit 7 f OR oc) AND 0x01 = (f::byte)"
  apply (rule bit_word_eqI)
  apply (auto simp add: numeral_bits bit_simps dest: byte_le1_bit byte_le15_bit)
  done

lemma length_field_small: "n \<le> 125 \<Longrightarrow> ucast (((ucast (n::size_t) :: byte) OR 0x80) AND 0x7F) = n"
  apply (rule bit_word_eqI)
  apply (auto simp add: numeral_bits bit_simps dest: size_le125_bit)
  done

lemma length_field_small_unmasked: "n \<le> 125 \<Longrightarrow> ucast (((ucast (n::size_t) :: byte)) AND 0x7F) = n"
  apply (rule bit_word_eqI)
  apply (auto simp add: numeral_bits bit_simps dest: size_le125_bit)
  done

lemma mask_bit_set: "drop_bit 7 ((b::byte) OR 0x80) AND 0x01 = 1"
  apply (rule bit_word_eqI)
  apply (auto simp add: numeral_bits bit_simps)
  done

lemma read_size_2: "n \<le> 65535 \<Longrightarrow>
  read_size [ucast (drop_bit 8 n AND 0xFF), ucast (n AND 0xFF)] = (n::size_t)"
  unfolding read_size_def
  apply simp
  apply (rule bit_word_eqI)
  apply (auto simp add: numeral_bits bit_simps dest: size_le65535_bit)
  done

lemma read_size_8: "read_size [ucast (drop_bit 56 n AND 0xFF), ucast (drop_bit 48 n AND 0xFF),
         ucast (drop_bit 40 n AND 0xFF),
         ucast (drop_bit 32 n AND 0xFF),
         ucast (drop_bit 24 n AND 0xFF),
         ucast (drop_bit 16 n AND 0xFF),
         ucast (drop_bit 8 n AND 0xFF), ucast (n AND 0xFF)] = (n::size_t)"
  unfolding read_size_def
  apply simp
  apply (rule bit_word_eqI)
  apply (simp add: numeral_bits bit_simps less_diff_conv2 cong: conj_cong)
  apply (case_tac "bit n na"; simp)
  apply arith
  done

lemma unat_of_nat64: "n < 2 ^ 64 \<Longrightarrow> unat (of_nat n :: size_t) = n"
  by (simp add: unat_of_nat)

lemma unmask_nth:
  "length hdr = off \<Longrightarrow>
   map (\<lambda>i. (hdr @ pl) ! (off + i) XOR key ! (i mod 4)) [0 ..< length pl]
   = map (\<lambda>i. pl ! i XOR key ! (i mod 4)) [0 ..< length pl]"
  by (simp add: nth_append)

lemma deserialize_masked_frame:
  assumes k: "length key = 4"
      and m: "drop_bit 7 b1 AND 0x01 = (1::byte)"
      and sb: "length ext = (if ucast (b1 AND 0x7F) = (126::size_t) then 2 else if ucast (b1 AND 0x7F) = (127::size_t) then 8 else 0)"
      and n: "n = (if ext = [] then ucast (b1 AND 0x7F) else read_size ext)"
      and pl: "unat n = length pl"
      and lt: "6 + length ext + length pl < 2 ^ 64"
  shows "vws_deserialize (b0 # b1 # ext @ key @ pl) f c =
     Inr (FRAME_COMPLETE,
       f\<lparr> fin := drop_bit 7 b0 AND 0x01, opcode := b0 AND 0x0F, mask_f := 1, size_f := n,
          offset := of_nat (6 + length ext), 
          data := map (\<lambda>i. pl ! i XOR key ! (i mod 4)) [0 ..< length pl] \<rparr>,
       of_nat (6 + length ext + length pl))"
proof -
  let ?bs = "b0 # b1 # ext @ key @ pl"
  have len: "length ?bs = 6 + length ext + length pl" using k by simp
  have e: "length ext = 0 \<or> length ext = 2 \<or> length ext = 8" using sb by (auto split: if_splits)
  have u: "unat (of_nat (length ?bs) :: size_t) = length ?bs"
    using lt unat_of_nat64[of "length ?bs"] unfolding len by blast
  have npl: "of_nat (length pl) = n" using pl by (metis of_nat_unat ucast_id)
  have cn: "(of_nat (6 + length ext + length pl) :: size_t) = 6 + of_nat (length ext) + n"
    using npl by simp
  have um: "map (\<lambda>i. (ext @ key @ pl) ! (length ext + 4 + i) XOR key ! (i mod 4)) [0 ..< length pl]
            = map (\<lambda>i. pl ! i XOR key ! (i mod 4)) [0 ..< length pl]"
    using unmask_nth[of "ext @ key" "length ext + 4" pl key] k by simp
  from e show ?thesis
  proof (elim disjE)
    assume e0: "length ext = 0"
    then have nn: "n = ucast (b1 AND 0x7F)" "ucast (b1 AND 0x7F) \<noteq> (126::size_t)" "ucast (b1 AND 0x7F) \<noteq> (127::size_t)" 
      using n sb by (auto split: if_splits)
    show ?thesis
      unfolding vws_deserialize_def Let_def cn
      using e0 nn k m pl lt u um npl
      by (simp add: word_less_nat_alt unat_of_nat unat_word_ariths del: of_nat_add)
  next
    assume e2: "length ext = 2"
    then have nn: "n = read_size ext" "ucast (b1 AND 0x7F) = (126::size_t)" 
      using n sb by (auto split: if_splits)
    show ?thesis 
      unfolding vws_deserialize_def Let_def cn
      using e2 nn k m pl lt u um npl
      by (simp add: word_less_nat_alt unat_of_nat unat_word_ariths del: of_nat_add)
  next
    assume e8: "length ext = 8"
    then have nn: "n = read_size ext" "ucast (b1 AND 0x7F) = (127::size_t)" 
      using n sb by (auto split: if_splits)
    show ?thesis 
      unfolding vws_deserialize_def Let_def cn
      using e8 nn k m pl lt u um npl
      by (simp add: word_less_nat_alt unat_of_nat unat_word_ariths del: of_nat_add)
  qed
qed


lemma length_header_cases:
  "length (length_header n) = (if n \<le> 125 then 1 else if n \<le> 65535 then 3 else 9)"
  by (simp add: length_header_def)

lemma xor_twice: "length d = L \<Longrightarrow> map (\<lambda>i. map (\<lambda>i. d ! i XOR (key::byte list) ! (i mod 4)) [0 ..< L] ! i XOR key ! (i mod 4)) [0 ..< L] = d"
  by (auto intro!: nth_equalityI simp: xor.assoc)

lemma serialize_masked_frame:
  assumes ok: "frame_ok f" and m: "mask_f f \<noteq> 0" and k: "length key = 4"
  shows "vws_serialize (Some key) (Some f) =
     Inr ((push_bit 7 (fin f) OR opcode f) # (hd (length_header (size_f f)) OR 0x80) # tl (length_header (size_f f))
          @ key @ map (\<lambda>i. data f ! i XOR key ! (i mod 4)) [0 ..< length (data f)])"
proof -
  have L: "unat (size_f f) = length (data f)" "length (data f) < 2 ^ 63"
    using ok by (simp_all add: frame_ok_def)
  show ?thesis
    unfolding vws_serialize_def Let_def
    using m k L
    by (simp add: length_header_cases unat_word_ariths unat_of_nat)
qed

lemma length_header_parse:
  fixes n :: size_t
  defines "b1 \<equiv> hd (length_header n) OR 0x80"
  defines "ext \<equiv> tl (length_header n)"
  shows "length ext = (if ucast (b1 AND 0x7F) = (126::size_t) then 2 else if ucast (b1 AND 0x7F) = (127::size_t) then 8 else 0)"
    and "n = (if ext = [] then ucast (b1 AND 0x7F) else read_size ext)"
proof -
  consider (small) "n \<le> 125" | (mid) "125 < n" "n \<le> 65535" | (big) "65535 < n" by fastforce
  then have "length ext = (if ucast (b1 AND 0x7F) = (126::size_t) then 2 else if ucast (b1 AND 0x7F) = (127::size_t) then 8 else 0)
     \<and> n = (if ext = [] then ucast (b1 AND 0x7F) else read_size ext)"
  proof cases
    case small
    have "ucast (b1 AND 0x7F) = n" using small length_field_small by (simp add: b1_def length_header_def)
    moreover have "ext = []" using small by (simp add: ext_def length_header_def)
    moreover have "n \<noteq> 126" "n \<noteq> 127" using small by auto
    ultimately show ?thesis by simp
  next
    case mid
    then have h: "length_header n = [126, ucast (drop_bit 8 n AND 0xFF), ucast (n AND 0xFF)]"
      by (simp add: length_header_def)
    show ?thesis using mid read_size_2[of n] by (simp add: b1_def ext_def h)
  next
    case big
    then have h: "length_header n = [127,
         ucast (drop_bit 56 n AND 0xFF), ucast (drop_bit 48 n AND 0xFF),
         ucast (drop_bit 40 n AND 0xFF), ucast (drop_bit 32 n AND 0xFF),
         ucast (drop_bit 24 n AND 0xFF), ucast (drop_bit 16 n AND 0xFF),
         ucast (drop_bit 8 n AND 0xFF), ucast (n AND 0xFF)]"
      by (simp add: length_header_def word_le_nat_alt word_less_nat_alt)
    show ?thesis using big read_size_8[of n] by (simp add: b1_def ext_def h)
  qed
  then show "length ext = (if ucast (b1 AND 0x7F) = (126::size_t) then 2 else if ucast (b1 AND 0x7F) = (127::size_t) then 8 else 0)"
    and "n = (if ext = [] then ucast (b1 AND 0x7F) else read_size ext)" by blast+
qed


section \<open>Round trip of a masked frame\<close>

lemma masked_roundtrip:
  assumes ok: "frame_ok f" and m: "mask_f f \<noteq> 0" and k: "length key = 4"
  shows "\<exists>buf f'. vws_serialize (Some key) (Some f) = Inr buf \<and>
           length buf < 2 ^ 64 \<and>
           vws_deserialize buf f0 c0 = Inr (FRAME_COMPLETE, f', of_nat (length buf)) \<and>
           fin f' = fin f \<and> opcode f' = opcode f \<and>
           size_f f' = size_f f \<and> data f' = data f"
proof -
  let ?n = "size_f f"
  let ?b0 = "push_bit 7 (fin f) OR opcode f"
  let ?b1 = "hd (length_header ?n) OR 0x80"
  let ?ext = "tl (length_header ?n)"
  let ?pl = "map (\<lambda>i. data f ! i XOR key ! (i mod 4)) [0 ..< length (data f)]"
  let ?buf = "?b0 # ?b1 # ?ext @ key @ ?pl"
  have L: "unat ?n = length (data f)" "length (data f) < 2 ^ 63" "fin f \<le> 1" "opcode f \<le> 0x0F"
    using ok by (simp_all add: frame_ok_def)
  have s: "vws_serialize (Some key) (Some f) = Inr ?buf"
    by (rule serialize_masked_frame[OF ok m k])
  have le: "length ?ext \<le> 8" by (simp add: length_header_cases)
  have len: "length ?buf = 6 + length ?ext + length ?pl" using k by simp
  have lt: "6 + length ?ext + length ?pl < 2 ^ 64" using le L by simp
  have d: "vws_deserialize ?buf f0 c0 = Inr (FRAME_COMPLETE,
       f0\<lparr> fin := drop_bit 7 ?b0 AND 0x01, opcode := ?b0 AND 0x0F, mask_f := 1, size_f := ?n,
          offset := of_nat (6 + length ?ext), 
          data := map (\<lambda>i. ?pl ! i XOR key ! (i mod 4)) [0 ..< length ?pl] \<rparr>,
       of_nat (6 + length ?ext + length ?pl))"
    apply (rule deserialize_masked_frame[OF k mask_bit_set length_header_parse(1) length_header_parse(2) _ lt])
    using L by simp
  have x: "map (\<lambda>i. ?pl ! i XOR key ! (i mod 4)) [0 ..< length ?pl] = data f"
    using xor_twice[of "data f" "length (data f)" key] by simp
  let ?f' = "f0\<lparr> fin := fin f, opcode := opcode f, mask_f := 1, size_f := ?n,
          offset := of_nat (6 + length ?ext), data := data f \<rparr>"
  have fin': "drop_bit 7 ?b0 AND 0x01 = fin f" by (rule fin_bit_roundtrip[OF L(3) L(4)])
  have oc': "?b0 AND 0x0F = opcode f" by (rule opcode_bits_roundtrip[OF L(3) L(4)])
  have d': "vws_deserialize ?buf f0 c0 = Inr (FRAME_COMPLETE, ?f', of_nat (length ?buf))"
    using d by (simp only: fin' oc' x len)
  show ?thesis
  proof (intro exI conjI)
    show "vws_serialize (Some key) (Some f) = Inr ?buf" by (rule s)
    show "length ?buf < 2 ^ 64" unfolding len by (rule lt)
    show "vws_deserialize ?buf f0 c0 = Inr (FRAME_COMPLETE, ?f', of_nat (length ?buf))" by (rule d')
  qed simp_all
qed


text \<open>
  Claim C1. For every frame of the data model with the mask flag set (either value of
  \<open>fin\<close>, any 4-bit opcode, a payload of 0 to \<open>2 ^ 63 - 1\<close> bytes) and every 4-byte masking
  key that \<open>RAND_bytes\<close> delivers, \<open>vws_serialize\<close> returns a buffer, and
  \<open>vws_deserialize\<close> on that buffer is complete, with \<open>fin\<close>, \<open>opcode\<close>, \<open>size\<close> and the
  payload bytes of the frame it started from and \<open>consumed\<close> equal to the buffer's size.
\<close>

theorem roundtrip_masked:
  assumes ok: "frame_ok f" and m: "mask_f f \<noteq> 0" and k: "length key = 4"
  shows "\<exists>buf f'. vws_serialize (Some key) (Some f) = Inr buf \<and>
           length buf < 2 ^ 64 \<and>
           vws_deserialize buf f0 c0 = Inr (FRAME_COMPLETE, f', of_nat (length buf)) \<and>
           fin f' = fin f \<and> opcode f' = opcode f \<and>
           size_f f' = size_f f \<and> data f' = data f"
  using ok m k by (rule masked_roundtrip)

theorem roundtrip_masked_witness:
  "frame_ok (vws_frame_new [0x68, 0x65, 0x6C, 0x6C, 0x6F] 5 TEXT_FRAME) \<and>
   mask_f (vws_frame_new [0x68, 0x65, 0x6C, 0x6C, 0x6F] 5 TEXT_FRAME) \<noteq> 0 \<and>
   length [0x37, 0xFA, 0x21, 0x3D :: byte] = 4 \<and>
   (\<exists>buf f'.
      vws_serialize (Some [0x37, 0xFA, 0x21, 0x3D])
        (Some (vws_frame_new [0x68, 0x65, 0x6C, 0x6C, 0x6F] 5 TEXT_FRAME)) = Inr buf \<and>
      length buf < 2 ^ 64 \<and>
      vws_deserialize buf (vws_frame_new [] 0 TEXT_FRAME) 0
        = Inr (FRAME_COMPLETE, f', of_nat (length buf)) \<and>
      fin f' = 1 \<and> opcode f' = TEXT_FRAME \<and> size_f f' = 5 \<and>
      data f' = [0x68, 0x65, 0x6C, 0x6C, 0x6F])"
proof -
  let ?f = "vws_frame_new [0x68, 0x65, 0x6C, 0x6C, 0x6F] 5 TEXT_FRAME"
  have ok: "frame_ok ?f" by (simp add: frame_ok_def vws_frame_new_def TEXT_FRAME_def)
  have m: "mask_f ?f \<noteq> 0" by (simp add: vws_frame_new_def)
  have k: "length [0x37, 0xFA, 0x21, 0x3D :: byte] = 4" by simp
  show ?thesis
    using roundtrip_masked [OF ok m k, of "vws_frame_new [] 0 TEXT_FRAME" 0] ok m
    by (simp add: vws_frame_new_def)
qed

section \<open>Layout of a serialized frame\<close>

lemma be_byte:
  "(ucast (drop_bit k (n::size_t) AND 0xFF) :: byte) = of_nat (unat n div 2 ^ k mod 256)"
proof -
  have "(ucast (drop_bit k n AND 0xFF) :: byte) = ucast (drop_bit k n)"
    by (rule bit_word_eqI) (auto simp add: bit_simps numeral_bits)
  also have "\<dots> = of_nat (unat (drop_bit k n))" by (simp only: of_nat_unat)
  also have "unat (drop_bit k n) = unat n div 2 ^ k"
    by (subst unat_drop_bit_eq) (rule drop_bit_eq_div)
  also have "of_nat (unat n div 2 ^ k) = (of_nat (unat n div 2 ^ k mod 256) :: byte)"
    by (simp add: word_of_nat_eq_iff take_bit_eq_mod)
  finally show ?thesis .
qed

lemma be_byte0:
  "(ucast ((n::size_t) AND 0xFF) :: byte) = of_nat (unat n div 2 ^ 0 mod 256)"
  using be_byte[of 0 n] by simp

lemma big_endian_2:
  "big_endian 2 m = [of_nat (m div 2 ^ 8 mod 256), of_nat (m div 2 ^ 0 mod 256)]"
  by (simp add: big_endian_def upt_rec)

lemma big_endian_8:
  "big_endian 8 m = [of_nat (m div 2 ^ 56 mod 256), of_nat (m div 2 ^ 48 mod 256),
     of_nat (m div 2 ^ 40 mod 256), of_nat (m div 2 ^ 32 mod 256),
     of_nat (m div 2 ^ 24 mod 256), of_nat (m div 2 ^ 16 mod 256),
     of_nat (m div 2 ^ 8 mod 256), of_nat (m div 2 ^ 0 mod 256)]"
  by (simp add: big_endian_def upt_rec)

lemma length_header_spec:
  "length_header n = length_field (unat n) # extended_length (unat n)"
proof -
  have a: "(n \<le> 125) = (unat n \<le> 125)" "(n \<le> 65535) = (unat n \<le> 65535)"
    by (simp_all add: word_le_nat_alt)
  have s: "(ucast n :: byte) = of_nat (unat n)" by (simp only: of_nat_unat)
  show ?thesis
    unfolding length_header_def length_field_def extended_length_def a
      big_endian_2 big_endian_8 be_byte
    unfolding be_byte0 s
    by simp
qed


lemma byte_le1_cases: "(b::byte) \<le> 1 \<Longrightarrow> b = 0 \<or> b = 1"
  by (metis word_le_less_eq word_less_1)

lemma length_extended_length:
  "length (extended_length n) = (if n \<le> 125 then 0 else if n \<le> 65535 then 2 else 8)"
  by (simp add: extended_length_def big_endian_def)

text \<open>
  Claim C2. For every frame of the data model, \<open>vws_serialize\<close> returns a buffer whose
  byte 0 is \<open>(fin << 7) | opcode\<close> and whose byte 1 is \<open>(mask << 7) | length_field\<close>, where
  the length field is the payload length up to 125, 126 followed by the length in 2
  big-endian bytes up to 65535, and 127 followed by the length in 8 big-endian bytes
  beyond; the 4-byte key follows exactly when the frame is masked, then the payload, each
  byte XORed with \<open>key[i mod 4]\<close> when masked; the size of the buffer is 2 plus the bytes of
  the extended length plus 4 when masked plus the payload length. For a masked frame the
  key is the one \<open>RAND_bytes\<close> delivers.
\<close>

theorem serialize_layout:
  assumes ok: "frame_ok f"
      and rnd: "mask_f f \<noteq> 0 \<Longrightarrow> rnd = Some key \<and> length key = 4"
  shows "\<exists>buf. vws_serialize rnd (Some f) = Inr buf \<and>
           buf ! 0 = push_bit 7 (fin f) OR opcode f \<and>
           buf ! 1 = push_bit 7 (mask_f f) OR length_field (length (data f)) \<and>
           buf = [buf ! 0, buf ! 1] @ extended_length (length (data f)) @
                 (if mask_f f \<noteq> 0
                  then key @ map (\<lambda>i. data f ! i XOR key ! (i mod 4)) [0 ..< length (data f)]
                  else data f) \<and>
           length buf = 2 + (if length (data f) \<le> 125 then 0
                             else if length (data f) \<le> 65535 then 2 else 8)
                          + (if mask_f f \<noteq> 0 then 4 else 0) + length (data f)"
proof -
  let ?n = "size_f f"
  let ?L = "length (data f)"
  have L: "unat ?n = ?L" "?L < 2 ^ 63" "mask_f f \<le> 1"
    using ok by (simp_all add: frame_ok_def)
  have lh: "length_header ?n = length_field ?L # extended_length ?L"
    using length_header_spec[of ?n] L(1) by simp
  show ?thesis
  proof (cases "mask_f f = 0")
    case True
    have s: "vws_serialize rnd (Some f) =
        Inr ((push_bit 7 (fin f) OR opcode f) # length_field ?L # extended_length ?L @ data f)"
      using True L
      by (simp add: vws_serialize_def Let_def lh length_extended_length unat_word_ariths unat_of_nat)
    show ?thesis
      unfolding s using True by (simp add: length_extended_length)
  next
    case False
    then have m1: "mask_f f = 1" using byte_le1_cases[OF L(3)] by simp
    have k: "rnd = Some key" "length key = 4" using rnd[OF False] by simp_all
    have s: "vws_serialize rnd (Some f) =
        Inr ((push_bit 7 (fin f) OR opcode f) # (length_field ?L OR 0x80) # extended_length ?L
             @ key @ map (\<lambda>i. data f ! i XOR key ! (i mod 4)) [0 ..< ?L])"
      using serialize_masked_frame[OF ok False k(2)] unfolding lh k(1) by simp
    have o: "length_field ?L OR 0x80 = push_bit 7 (mask_f f) OR length_field ?L"
      unfolding m1 by (simp add: or.commute)
    show ?thesis
      unfolding s o using False k(2) by (simp add: length_extended_length)
  qed
qed


theorem serialize_layout_witness:
  "frame_ok (vws_frame_new (replicate 300 0x61) 300 BINARY_FRAME) \<and>
   mask_f (vws_frame_new (replicate 300 0x61) 300 BINARY_FRAME) \<noteq> 0 \<and>
   length [0x37, 0xFA, 0x21, 0x3D :: byte] = 4 \<and>
   (\<exists>buf. vws_serialize (Some [0x37, 0xFA, 0x21, 0x3D])
            (Some (vws_frame_new (replicate 300 0x61) 300 BINARY_FRAME)) = Inr buf \<and>
      buf ! 0 = 0x82 \<and> buf ! 1 = 0xFE \<and> buf ! 2 = 0x01 \<and> buf ! 3 = 0x2C \<and>
      take 4 (drop 4 buf) = [0x37, 0xFA, 0x21, 0x3D] \<and> length buf = 308)"
proof -
  let ?f = "vws_frame_new (replicate 300 0x61) 300 BINARY_FRAME"
  let ?k = "[0x37, 0xFA, 0x21, 0x3D :: byte]"
  have ok: "frame_ok ?f" by (simp add: frame_ok_def vws_frame_new_def BINARY_FRAME_def)
  have r: "mask_f ?f \<noteq> 0 \<Longrightarrow> Some ?k = Some ?k \<and> length ?k = 4" by simp
  have d: "length (data ?f) = 300" "fin ?f = 1" "opcode ?f = 2" "mask_f ?f = 1"
    by (simp_all add: vws_frame_new_def BINARY_FRAME_def)
  obtain buf where b: "vws_serialize (Some ?k) (Some ?f) = Inr buf"
      "buf ! 0 = push_bit 7 (fin ?f) OR opcode ?f"
      "buf ! 1 = push_bit 7 (mask_f ?f) OR length_field (length (data ?f))"
      "buf = [buf ! 0, buf ! 1] @ extended_length (length (data ?f)) @
             (if mask_f ?f \<noteq> 0
              then ?k @ map (\<lambda>i. data ?f ! i XOR ?k ! (i mod 4)) [0 ..< length (data ?f)]
              else data ?f)"
      "length buf = 2 + (if length (data ?f) \<le> 125 then 0
                         else if length (data ?f) \<le> 65535 then 2 else 8)
                      + (if mask_f ?f \<noteq> 0 then 4 else 0) + length (data ?f)"
    using serialize_layout [OF ok r] by blast
  have e: "extended_length 300 = [0x01, 0x2C]"
    by (simp add: extended_length_def big_endian_def upt_rec)
  have b0: "buf ! 0 = 0x82" using b(2) by (simp add: d)
  have b1: "buf ! 1 = 0xFE" using b(3) by (simp add: d length_field_def)
  have sh: "buf = [0x82, 0xFE, 0x01, 0x2C] @ ?k @
                  map (\<lambda>i. data ?f ! i XOR ?k ! (i mod 4)) [0 ..< 300]"
    using b(4) unfolding d e b0 b1 by simp
  have "buf ! 2 = 0x01" "buf ! 3 = 0x2C" "take 4 (drop 4 buf) = ?k"
    by (subst sh, simp)+
  moreover have "length buf = 308" using b(5) by (simp add: d)
  ultimately show ?thesis using ok b(1) b0 b1 d(4) by auto
qed

section \<open>A declared length that wraps the required size\<close>

text \<open>
  While the sums of \<open>vws_deserialize\<close> stay below \<open>2 ^ 64\<close>, its checks are those of the
  header: a slice shorter than the extent its header declares is answered with
  \<open>FRAME_INCOMPLETE\<close> and nothing is consumed.
\<close>

lemma deserialize_incomplete:
  assumes l: "length bs < 2 ^ 64"
      and e: "case declared_extent bs of None \<Rightarrow> True | Some e \<Rightarrow> length bs < e \<and> e < 2 ^ 64"
  shows "\<exists>f'. vws_deserialize bs f c = Inr (FRAME_INCOMPLETE, f', c)"
proof -
  have u: "length bs < unat (of_nat k + n)"
    if "length bs < k + unat n" "k + unat n < 2 ^ 64" for k and n :: size_t
    using that by (simp add: unat_word_ariths unat_of_nat)
  have s: "unat (of_nat (length bs) :: size_t) = length bs"
    using l by (simp add: unat_of_nat)
  have v: "\<not> 2 ^ 64 \<le> length bs"
    using l by simp
  note d = vws_deserialize_def Let_def word_less_nat_alt s
  show ?thesis
  proof (cases "length bs < 2")
    case True
    then show ?thesis using v by (simp add: d)
  next
    case g: False
    consider (a) "ucast (bs ! 1 AND 0x7F) = (126 :: size_t)"
      | (b) "ucast (bs ! 1 AND 0x7F) = (127 :: size_t)"
      | (c) "ucast (bs ! 1 AND 0x7F) \<noteq> (126 :: size_t)" "ucast (bs ! 1 AND 0x7F) \<noteq> (127 :: size_t)"
      by blast
    then show ?thesis
    proof cases
      case a
      show ?thesis
      proof (cases "length bs < 4")
        case True
        then show ?thesis using v g a by (simp add: d)
      next
        case h: False
        show ?thesis
        proof (cases "drop_bit 7 (bs ! 1) AND 0x01 = 0")
          case True
          have "length bs < 4 + unat (read_size (take 2 (drop 2 bs))) \<and>
                4 + unat (read_size (take 2 (drop 2 bs))) < 2 ^ 64"
            using e g a h True by (simp add: declared_extent_def)
          then have "length bs < unat (4 + read_size (take 2 (drop 2 bs)))"
            using u[of 4] by simp
          then show ?thesis using v g a h True by (simp add: d)
        next
          case False
          have "length bs < 8 + unat (read_size (take 2 (drop 2 bs))) \<and>
                8 + unat (read_size (take 2 (drop 2 bs))) < 2 ^ 64"
            using e g a h False by (simp add: declared_extent_def)
          then have "length bs < unat (8 + read_size (take 2 (drop 2 bs)))"
            using u[of 8] by simp
          then show ?thesis using v g a h False by (simp add: d)
        qed
      qed
    next
      case b
      show ?thesis
      proof (cases "length bs < 10")
        case True
        then show ?thesis using v g b by (simp add: d)
      next
        case h: False
        show ?thesis
        proof (cases "drop_bit 7 (bs ! 1) AND 0x01 = 0")
          case True
          have "length bs < 10 + unat (read_size (take 8 (drop 2 bs))) \<and>
                10 + unat (read_size (take 8 (drop 2 bs))) < 2 ^ 64"
            using e g b h True by (simp add: declared_extent_def)
          then have "length bs < unat (10 + read_size (take 8 (drop 2 bs)))"
            using u[of 10] by simp
          then show ?thesis using v g b h True by (simp add: d)
        next
          case False
          have "length bs < 14 + unat (read_size (take 8 (drop 2 bs))) \<and>
                14 + unat (read_size (take 8 (drop 2 bs))) < 2 ^ 64"
            using e g b h False by (simp add: declared_extent_def)
          then have "length bs < unat (14 + read_size (take 8 (drop 2 bs)))"
            using u[of 14] by simp
          then show ?thesis using v g b h False by (simp add: d)
        qed
      qed
    next
      case c
      show ?thesis
      proof (cases "drop_bit 7 (bs ! 1) AND 0x01 = 0")
        case True
        have "length bs < 2 + unat (ucast (bs ! 1 AND 0x7F) :: size_t) \<and>
              2 + unat (ucast (bs ! 1 AND 0x7F) :: size_t) < 2 ^ 64"
          using e g c True by (simp add: declared_extent_def)
        then have "length bs < unat (2 + (ucast (bs ! 1 AND 0x7F) :: size_t))"
          using u[of 2] by simp
        then show ?thesis using v g c True by (simp add: d)
      next
        case False
        have "length bs < 6 + unat (ucast (bs ! 1 AND 0x7F) :: size_t) \<and>
              6 + unat (ucast (bs ! 1 AND 0x7F) :: size_t) < 2 ^ 64"
          using e g c False by (simp add: declared_extent_def)
        then have "length bs < unat (6 + (ucast (bs ! 1 AND 0x7F) :: size_t))"
          using u[of 6] by simp
        then show ?thesis using v g c False by (simp add: d)
      qed
    qed
  qed
qed

text \<open>
  A frame that is returned complete from a slice of fewer than \<open>2 ^ 63\<close> bytes is within
  the data model, and it was read from bytes of the slice.
\<close>

lemma deserialize_frame_ok:
  assumes d: "vws_deserialize bs f c0 = Inr (FRAME_COMPLETE, f', consumed)"
      and l: "length bs < 2 ^ 63"
  shows "frame_ok f' \<and> unat consumed \<le> length bs"
proof -
  have a: "x AND 1 \<le> 1" "x AND 15 \<le> 15" for x :: byte
    by (rule word_and_le1)+
  have u: "unat (of_nat k + n) = k + unat n" if "k + unat n < 2 ^ 64" for k and n :: size_t
    using that by (simp add: unat_word_ariths unat_of_nat)
  show ?thesis
    using d l u[of 2] u[of 4] u[of 6] u[of 8] u[of 10] u[of 14]
    by (auto simp add: vws_deserialize_def Let_def frame_ok_def a split: if_splits)
qed

text \<open>
  Claim C3 says that a slice with a complete header and fewer payload bytes than the
  header declares is answered with \<open>FRAME_INCOMPLETE\<close>. The sum
  \<open>required_bytes += 4 + f->size\<close> is taken in 64 bits: a masked header that declares
  \<open>2 ^ 64 - 1\<close> payload bytes makes it 13, the 14-byte slice passes
  \<open>size < required_bytes\<close>, and the copy loop runs over \<open>2 ^ 64 - 1\<close> bytes that are not
  there. The unmasked path does the same with \<open>required_bytes += f->size\<close>.
\<close>

theorem deserialize_wrapped_length:
  "vws_deserialize
     [0x81, 0xFF, 0xFF, 0xFF, 0xFF, 0xFF, 0xFF, 0xFF, 0xFF, 0xFF, 0x01, 0x02, 0x03, 0x04]
     (vws_frame_new [] 0 TEXT_FRAME) 0 = Inl MemoryFault \<and>
   vws_deserialize
     [0x81, 0x7F, 0xFF, 0xFF, 0xFF, 0xFF, 0xFF, 0xFF, 0xFF, 0xFF]
     (vws_frame_new [] 0 TEXT_FRAME) 0 = Inl MemoryFault"
  by (simp add: vws_deserialize_def vws_frame_new_def read_size_def)

section \<open>Reassembly of a message\<close>

lemma has_complete_loop_iff: "has_complete_loop q \<longleftrightarrow> (\<exists>f \<in> set q. fin f = 1)"
  by (induction q) auto

lemma pop_loop_run:
  assumes "\<forall>f \<in> set (pre @ [g]). opcode f \<noteq> 100 \<and> unat (size_f f) = length (data f)"
      and "\<forall>f \<in> set pre. fin f \<noteq> 1" and "fin g = 1"
  shows "pop_loop (q' @ g # rev pre) m w =
           Inr (m\<lparr> opcode_m := (if opcode_m m = 100 then opcode (hd (pre @ [g])) else opcode_m m),
                   data_m := data_m m @ concat (map data (pre @ [g])) \<rparr>,
                q', w\<lparr> freed := freed w @ pre @ [g] \<rparr>)"
  using assms
proof (induction pre arbitrary: m w)
  case Nil
  then show ?case
    by (subst pop_loop.simps) (simp add: Let_def vws_frame_free_def)
next
  case (Cons p ps)
  have q: "q' @ g # rev (p # ps) = (q' @ g # rev ps) @ [p]" by simp
  have p: "opcode p \<noteq> 100" "unat (size_f p) = length (data p)" "fin p \<noteq> 1"
    using Cons.prems by simp_all
  let ?m = "(if opcode_m m = 100 then m\<lparr> opcode_m := opcode p \<rparr> else m)
              \<lparr> data_m := data_m m @ data p \<rparr>"
  have step: "pop_loop (q' @ g # rev (p # ps)) m w =
              pop_loop (q' @ g # rev ps) ?m (vws_frame_free p w)"
    unfolding q
    by (subst pop_loop.simps) (simp add: Let_def p butlast_append)
  have ih: "pop_loop (q' @ g # rev ps) ?m (vws_frame_free p w) =
           Inr (?m\<lparr> opcode_m := (if opcode_m ?m = 100 then opcode (hd (ps @ [g])) else opcode_m ?m),
                   data_m := data_m ?m @ concat (map data (ps @ [g])) \<rparr>,
                q', (vws_frame_free p w)\<lparr> freed := freed (vws_frame_free p w) @ ps @ [g] \<rparr>)"
    using Cons.prems by (intro Cons.IH) simp_all
  show ?case
    unfolding step ih using p by (simp add: vws_frame_free_def)
qed


lemma message_run_split:
  assumes "\<exists>f \<in> set q. fin f = 1"
  obtains pre g rest where "q = rev rest @ g # rev pre" "message_run q = pre @ [g]"
    "\<forall>f \<in> set pre. fin f \<noteq> 1" "fin g = 1"
proof -
  let ?P = "\<lambda>f. fin f \<noteq> (1::byte)"
  from assms have "dropWhile ?P (rev q) \<noteq> []" by (auto simp add: dropWhile_eq_Nil_conv)
  then obtain g rest where d: "dropWhile ?P (rev q) = g # rest" by (cases "dropWhile ?P (rev q)") auto
  then have g: "fin g = 1" using hd_dropWhile[of ?P "rev q"] by fastforce
  have "rev q = takeWhile ?P (rev q) @ g # rest" using d takeWhile_dropWhile_id[of ?P "rev q"] by simp
  then have "q = rev (takeWhile ?P (rev q) @ g # rest)" by (metis rev_rev_ident)
  then have q: "q = rev rest @ g # rev (takeWhile ?P (rev q))" by simp
  have r: "message_run q = takeWhile ?P (rev q) @ [g]" by (simp add: message_run_def d)
  have p: "\<forall>f \<in> set (takeWhile ?P (rev q)). fin f \<noteq> 1" by (auto dest: set_takeWhileD)
  show thesis using that[OF q r p g] .
qed

lemma opcode_not_sentinel: "frame_ok f \<Longrightarrow> opcode f \<noteq> 100"
  by (auto simp add: frame_ok_def)

text \<open>
  Claim C4. For every queue of frames of the data model, \<open>vws_msg_pop\<close> returns null and
  changes nothing when no queued frame has \<open>fin\<close> set. Otherwise it returns a message
  whose opcode is that of the oldest queued frame and whose payload is the concatenation, in
  dequeue order, of the payloads of the frames up to and including the first one with \<open>fin\<close>
  set; exactly those frames are taken from the queue's end and freed, in that order.
\<close>

theorem msg_pop_reassembles:
  assumes ok: "\<forall>f \<in> set (queue c). frame_ok f"
  shows "if \<exists>f \<in> set (queue c). fin f = 1
         then vws_msg_pop c w =
                Inr (Some \<lparr> opcode_m = opcode (hd (message_run (queue c))),
                            data_m = concat (map data (message_run (queue c))) \<rparr>,
                     c\<lparr> queue := take (length (queue c) - length (message_run (queue c)))
                                    (queue c) \<rparr>,
                     w\<lparr> freed := freed w @ message_run (queue c) \<rparr>)
              \<and> queue c = take (length (queue c) - length (message_run (queue c))) (queue c)
                            @ rev (message_run (queue c))
              \<and> message_run (queue c) \<noteq> []
              \<and> fin (last (message_run (queue c))) = 1
              \<and> (\<forall>f \<in> set (butlast (message_run (queue c))). fin f \<noteq> 1)
         else vws_msg_pop c w = Inr (None, c, w)"
proof (cases "\<exists>f \<in> set (queue c). fin f = 1")
  case False
  then show ?thesis
    by (simp add: vws_msg_pop_def has_complete_message_def has_complete_loop_iff)
next
  case True
  then obtain pre g rest where s: "queue c = rev rest @ g # rev pre"
    "message_run (queue c) = pre @ [g]" "\<forall>f \<in> set pre. fin f \<noteq> 1" "fin g = 1"
    by (rule message_run_split)
  have "set (pre @ [g]) \<subseteq> set (queue c)" unfolding s(1) by auto
  then have a: "\<forall>f \<in> set (pre @ [g]). opcode f \<noteq> 100 \<and> unat (size_f f) = length (data f)"
    using ok opcode_not_sentinel by (auto simp add: frame_ok_def)
  have t: "take (length (queue c) - length (message_run (queue c))) (queue c) = rev rest"
    unfolding s(2) unfolding s(1) by simp
  have p: "pop_loop (queue c) (vws_msg_new\<lparr> opcode_m := 100 \<rparr>) w =
      Inr (\<lparr> opcode_m = opcode (hd (pre @ [g])), data_m = concat (map data (pre @ [g])) \<rparr>,
           rev rest, w\<lparr> freed := freed w @ pre @ [g] \<rparr>)"
    unfolding s(1) pop_loop_run[OF a s(3) s(4)] by (simp add: vws_msg_new_def)
  have r: "vws_msg_pop c w =
                Inr (Some \<lparr> opcode_m = opcode (hd (message_run (queue c))),
                            data_m = concat (map data (message_run (queue c))) \<rparr>,
                     c\<lparr> queue := rev rest \<rparr>,
                     w\<lparr> freed := freed w @ message_run (queue c) \<rparr>)"
    using True by (simp add: vws_msg_pop_def has_complete_message_def has_complete_loop_iff p s(2))
  have q: "queue c = rev rest @ rev (message_run (queue c))"
    unfolding s(2) by (simp add: s(1))
  have n: "message_run (queue c) \<noteq> []" "fin (last (message_run (queue c))) = 1"
    "\<forall>f \<in> set (butlast (message_run (queue c))). fin f \<noteq> 1"
    unfolding s(2) using s(3) s(4) by simp_all
  have main: "vws_msg_pop c w =
                Inr (Some \<lparr> opcode_m = opcode (hd (message_run (queue c))),
                            data_m = concat (map data (message_run (queue c))) \<rparr>,
                     c\<lparr> queue := take (length (queue c) - length (message_run (queue c)))
                                    (queue c) \<rparr>,
                     w\<lparr> freed := freed w @ message_run (queue c) \<rparr>)
              \<and> queue c = take (length (queue c) - length (message_run (queue c))) (queue c)
                            @ rev (message_run (queue c))
              \<and> message_run (queue c) \<noteq> []
              \<and> fin (last (message_run (queue c))) = 1
              \<and> (\<forall>f \<in> set (butlast (message_run (queue c))). fin f \<noteq> 1)"
    unfolding t using r q n by blast
  show ?thesis by (subst if_P [OF True]) (rule main)
qed


theorem msg_pop_reassembles_witness:
  "frame_ok \<lparr> fin = 0, opcode = 0x1, mask_f = 0, offset = 2, size_f = 2, data = [0x61, 0x62] \<rparr> \<and>
   frame_ok \<lparr> fin = 1, opcode = 0x0, mask_f = 0, offset = 2, size_f = 2, data = [0x63, 0x64] \<rparr> \<and>
   frame_ok \<lparr> fin = 1, opcode = 0x2, mask_f = 0, offset = 2, size_f = 1, data = [0x7A] \<rparr> \<and>
   vws_msg_pop
     \<lparr> sockfd = 3, ssl = False, buffer = [], flags = CNX_CONNECTED, url = None,
        queue = [\<lparr> fin = 1, opcode = 0x2, mask_f = 0, offset = 2, size_f = 1, data = [0x7A] \<rparr>,
                 \<lparr> fin = 1, opcode = 0x0, mask_f = 0, offset = 2, size_f = 2, data = [0x63, 0x64] \<rparr>,
                 \<lparr> fin = 0, opcode = 0x1, mask_f = 0, offset = 2, size_f = 2, data = [0x61, 0x62] \<rparr>],
        disconnect = False \<rparr>
     \<lparr> e_code = VE_NONE, wire = [], io = [], rand = [], hook_calls = 0, freed = [] \<rparr>
   = Inr (Some \<lparr> opcode_m = 0x1, data_m = [0x61, 0x62, 0x63, 0x64] \<rparr>,
          \<lparr> sockfd = 3, ssl = False, buffer = [], flags = CNX_CONNECTED, url = None,
        queue = [\<lparr> fin = 1, opcode = 0x2, mask_f = 0, offset = 2, size_f = 1, data = [0x7A] \<rparr>,
                 \<lparr> fin = 1, opcode = 0x0, mask_f = 0, offset = 2, size_f = 2, data = [0x63, 0x64] \<rparr>,
                 \<lparr> fin = 0, opcode = 0x1, mask_f = 0, offset = 2, size_f = 2, data = [0x61, 0x62] \<rparr>],
        disconnect = False \<rparr>
            \<lparr> queue := [\<lparr> fin = 1, opcode = 0x2, mask_f = 0, offset = 2, size_f = 1, data = [0x7A] \<rparr>] \<rparr>,
          \<lparr> e_code = VE_NONE, wire = [], io = [], rand = [], hook_calls = 0, freed = [] \<rparr>
            \<lparr> freed := [\<lparr> fin = 0, opcode = 0x1, mask_f = 0, offset = 2, size_f = 2, data = [0x61, 0x62] \<rparr>,
                       \<lparr> fin = 1, opcode = 0x0, mask_f = 0, offset = 2, size_f = 2, data = [0x63, 0x64] \<rparr>] \<rparr>)"
proof -
  let ?c = "\<lparr> sockfd = 3, ssl = False, buffer = [], flags = CNX_CONNECTED, url = None,
        queue = [\<lparr> fin = 1, opcode = 0x2, mask_f = 0, offset = 2, size_f = 1, data = [0x7A] \<rparr>,
                 \<lparr> fin = 1, opcode = 0x0, mask_f = 0, offset = 2, size_f = 2, data = [0x63, 0x64] \<rparr>,
                 \<lparr> fin = 0, opcode = 0x1, mask_f = 0, offset = 2, size_f = 2, data = [0x61, 0x62] \<rparr>],
        disconnect = False \<rparr>"
  have ok: "\<forall>f \<in> set (queue ?c). frame_ok f" by (simp add: frame_ok_def)
  show ?thesis
    using msg_pop_reassembles [OF ok, of "\<lparr> e_code = VE_NONE, wire = [], io = [], rand = [], hook_calls = 0, freed = [] \<rparr>"] ok
    by (simp add: message_run_def)
qed

section \<open>Dispatch of an inbound frame\<close>

lemma frame_new_ok:
  "frame_ok f \<Longrightarrow> oc \<le> 0x0F \<Longrightarrow>
   vws_frame_new (data f) (size_f f) oc =
     \<lparr> fin = 1, opcode = oc, mask_f = 1, offset = 0, size_f = size_f f, data = data f \<rparr>"
  by (auto simp add: vws_frame_new_def frame_ok_def word_gt_0)

lemma serialize_io_masked:
  assumes "frame_ok f" "mask_f f \<noteq> 0" "rand w = key # ks" "length key = 4"
  shows "\<exists>buf. vws_serialize (Some key) (Some f) = Inr buf \<and>
           vws_serialize_io f w =
             (Inr buf, w\<lparr> e_code := VE_NONE, rand := ks, freed := freed w @ [f] \<rparr>)"
proof -
  obtain buf where b: "vws_serialize (Some key) (Some f) = Inr buf"
    using serialize_masked_frame[OF assms(1) assms(2) assms(4)] by blast
  show ?thesis
    using assms(2) assms(3) b
    by (simp add: vws_serialize_io_def RAND_bytes_def success_def vws_frame_free_def)
qed


lemma pong_ok: "frame_ok f \<Longrightarrow>
  frame_ok \<lparr> fin = 1, opcode = PONG_FRAME, mask_f = 1, offset = 0, size_f = size_f f, data = data f \<rparr>"
  by (simp add: frame_ok_def PONG_FRAME_def)

lemma close_ok:
  "frame_ok \<lparr> fin = 1, opcode = CLOSE_FRAME, mask_f = 1, offset = 0, size_f = 2, data = [0x03, 0xE8] \<rparr>"
  by (simp add: frame_ok_def CLOSE_FRAME_def)

lemma close_frame_new:
  "vws_frame_new (htons_bytes WS_CLOSE_NORMAL) 2 CLOSE_FRAME =
     \<lparr> fin = 1, opcode = CLOSE_FRAME, mask_f = 1, offset = 0, size_f = 2, data = [0x03, 0xE8] \<rparr>"
  by (simp add: vws_frame_new_def htons_bytes_def WS_CLOSE_NORMAL_def)

text \<open>
  Claim C5. \<open>process_frame\<close> on an inbound frame of the data model, with the socket
  connected, \<open>RAND_bytes\<close> delivering a key and the socket writable: a PING with payload P
  has the serialization of a PONG frame with payload P written to the socket (the bytes
  the socket accepts of it; deserializing the buffer gives opcode PONG and payload P) and
  the input frame freed; a PONG is freed and nothing is written; a CLOSE sets the flag
  \<open>CNX_CLOSING\<close> and has a serialized CLOSE frame written whose payload is the status 1000
  in 2 big-endian bytes; TEXT, BINARY and CONTINUATION frames are put at the head of the
  queue.
\<close>

theorem process_frame_dispatch:
  assumes okf: "frame_ok f"
  shows "(opcode f = PING_FRAME \<longrightarrow> vws_socket_is_connected c \<longrightarrow>
            rand w = key # ks \<longrightarrow> length key = 4 \<longrightarrow> io w = Sent n # evs \<longrightarrow>
          (\<exists>buf f'.
             vws_serialize (Some key)
               (Some \<lparr> fin = 1, opcode = PONG_FRAME, mask_f = 1, offset = 0,
                       size_f = size_f f, data = data f \<rparr>) = Inr buf \<and>
             vws_deserialize buf f0 c0 = Inr (FRAME_COMPLETE, f', of_nat (length buf)) \<and>
             opcode f' = PONG_FRAME \<and> data f' = data f \<and>
             process_frame c f w =
               Inr (c, w\<lparr> e_code := VE_NONE, wire := wire w @ take n buf, io := evs, rand := ks,
                        freed := freed w @
                          [\<lparr> fin = 1, opcode = PONG_FRAME, mask_f = 1, offset = 0,
                             size_f = size_f f, data = data f \<rparr>, f] \<rparr>)))
       \<and> (opcode f = PONG_FRAME \<longrightarrow>
            process_frame c f w = Inr (c, w\<lparr> e_code := VE_NONE, freed := freed w @ [f] \<rparr>))
       \<and> (opcode f = CLOSE_FRAME \<longrightarrow> vws_socket_is_connected c \<longrightarrow>
            rand w = key # ks \<longrightarrow> length key = 4 \<longrightarrow> io w = Sent n # evs \<longrightarrow>
          (\<exists>buf f'.
             vws_serialize (Some key)
               (Some \<lparr> fin = 1, opcode = CLOSE_FRAME, mask_f = 1, offset = 0,
                       size_f = 2, data = big_endian 2 1000 \<rparr>) = Inr buf \<and>
             vws_deserialize buf f0 c0 = Inr (FRAME_COMPLETE, f', of_nat (length buf)) \<and>
             opcode f' = CLOSE_FRAME \<and> data f' = big_endian 2 1000 \<and>
             process_frame c f w =
               Inr (c\<lparr> flags := flags c OR CNX_CLOSING \<rparr>,
                    w\<lparr> e_code := VE_NONE, wire := wire w @ take n buf, io := evs, rand := ks,
                       freed := freed w @
                          [\<lparr> fin = 1, opcode = CLOSE_FRAME, mask_f = 1, offset = 0,
                             size_f = 2, data = big_endian 2 1000 \<rparr>, f] \<rparr>)))
       \<and> (opcode f = TEXT_FRAME \<or> opcode f = BINARY_FRAME \<or> opcode f = CONTINUATION_FRAME \<longrightarrow>
            process_frame c f w = Inr (c\<lparr> queue := f # queue c \<rparr>, w\<lparr> e_code := VE_NONE \<rparr>))"
proof (intro conjI impI)
  assume oc: "opcode f = PING_FRAME" and conn: "vws_socket_is_connected c"
    and r: "rand w = key # ks" and k: "length key = 4" and io: "io w = Sent n # evs"
  let ?pf = "\<lparr> fin = 1, opcode = PONG_FRAME, mask_f = 1, offset = 0,
                size_f = size_f f, data = data f \<rparr>"
  have pok: "frame_ok ?pf" by (rule pong_ok[OF okf])
  have pm: "mask_f ?pf \<noteq> 0" by simp
  have pn: "vws_frame_new (data f) (size_f f) PONG_FRAME = ?pf"
    by (rule frame_new_ok[OF okf]) (simp add: PONG_FRAME_def)
  obtain buf f' where b: "vws_serialize (Some key) (Some ?pf) = Inr buf"
     "vws_deserialize buf f0 c0 = Inr (FRAME_COMPLETE, f', of_nat (length buf))"
     "opcode f' = opcode ?pf" "data f' = data ?pf"
    using masked_roundtrip[OF pok pm k, of f0 c0] by blast
  obtain buf' where b': "vws_serialize (Some key) (Some ?pf) = Inr buf'"
     "vws_serialize_io ?pf w = (Inr buf', w\<lparr> e_code := VE_NONE, rand := ks, freed := freed w @ [?pf] \<rparr>)"
    using serialize_io_masked[OF pok pm r k] by blast
  have e: "buf' = buf" using b(1) b'(1) by simp
  have ne: "buf \<noteq> []" using serialize_masked_frame[OF pok pm k] b(1) by auto
  have p: "process_frame c f w =
               Inr (c, w\<lparr> e_code := VE_NONE, wire := wire w @ take n buf, io := evs, rand := ks,
                        freed := freed w @ [?pf, f] \<rparr>)"
    using oc conn io ne b'(2)[unfolded e]
    by (simp add: process_frame_def vws_generate_pong_frame_def pn vws_socket_write_def
          success_def error_def vws_frame_free_def Let_def
          PING_FRAME_def CLOSE_FRAME_def TEXT_FRAME_def BINARY_FRAME_def CONTINUATION_FRAME_def)
  show "\<exists>buf f'.
             vws_serialize (Some key) (Some ?pf) = Inr buf \<and>
             vws_deserialize buf f0 c0 = Inr (FRAME_COMPLETE, f', of_nat (length buf)) \<and>
             opcode f' = PONG_FRAME \<and> data f' = data f \<and>
             process_frame c f w =
               Inr (c, w\<lparr> e_code := VE_NONE, wire := wire w @ take n buf, io := evs, rand := ks,
                        freed := freed w @ [?pf, f] \<rparr>)"
    using b p by auto
next
  assume "opcode f = PONG_FRAME"
  then show "process_frame c f w = Inr (c, w\<lparr> e_code := VE_NONE, freed := freed w @ [f] \<rparr>)"
    by (simp add: process_frame_def success_def vws_frame_free_def
          PONG_FRAME_def PING_FRAME_def CLOSE_FRAME_def TEXT_FRAME_def BINARY_FRAME_def
          CONTINUATION_FRAME_def)
next
  assume oc: "opcode f = CLOSE_FRAME" and conn: "vws_socket_is_connected c"
    and r: "rand w = key # ks" and k: "length key = 4" and io: "io w = Sent n # evs"
  have be: "big_endian 2 1000 = [0x03, 0xE8]" by (simp add: big_endian_def upt_rec)
  let ?cf = "\<lparr> fin = 1, opcode = CLOSE_FRAME, mask_f = 1, offset = 0,
                size_f = 2, data = [0x03, 0xE8 :: byte] \<rparr>"
  have pok: "frame_ok ?cf" by (rule close_ok)
  have pm: "mask_f ?cf \<noteq> 0" by simp
  obtain buf f' where b: "vws_serialize (Some key) (Some ?cf) = Inr buf"
     "vws_deserialize buf f0 c0 = Inr (FRAME_COMPLETE, f', of_nat (length buf))"
     "opcode f' = opcode ?cf" "data f' = data ?cf"
    using masked_roundtrip[OF pok pm k, of f0 c0] by blast
  obtain buf' where b': "vws_serialize (Some key) (Some ?cf) = Inr buf'"
     "vws_serialize_io ?cf w = (Inr buf', w\<lparr> e_code := VE_NONE, rand := ks, freed := freed w @ [?cf] \<rparr>)"
    using serialize_io_masked[OF pok pm r k] by blast
  have e: "buf' = buf" using b(1) b'(1) by simp
  have ne: "buf \<noteq> []" using serialize_masked_frame[OF pok pm k] b(1) by auto
  have p: "process_frame c f w =
               Inr (c\<lparr> flags := flags c OR CNX_CLOSING \<rparr>,
                    w\<lparr> e_code := VE_NONE, wire := wire w @ take n buf, io := evs, rand := ks,
                        freed := freed w @ [?cf, f] \<rparr>)"
    using oc conn io ne b'(2)[unfolded e]
    by (simp add: process_frame_def vws_generate_close_frame_def close_frame_new
          vws_socket_write_def vws_set_flag_def vws_socket_is_connected_def
          success_def error_def vws_frame_free_def Let_def)
  show "\<exists>buf f'.
             vws_serialize (Some key)
               (Some \<lparr> fin = 1, opcode = CLOSE_FRAME, mask_f = 1, offset = 0,
                       size_f = 2, data = big_endian 2 1000 \<rparr>) = Inr buf \<and>
             vws_deserialize buf f0 c0 = Inr (FRAME_COMPLETE, f', of_nat (length buf)) \<and>
             opcode f' = CLOSE_FRAME \<and> data f' = big_endian 2 1000 \<and>
             process_frame c f w =
               Inr (c\<lparr> flags := flags c OR CNX_CLOSING \<rparr>,
                    w\<lparr> e_code := VE_NONE, wire := wire w @ take n buf, io := evs, rand := ks,
                       freed := freed w @
                          [\<lparr> fin = 1, opcode = CLOSE_FRAME, mask_f = 1, offset = 0,
                             size_f = 2, data = big_endian 2 1000 \<rparr>, f] \<rparr>)"
    unfolding be using b p by auto
next
  assume "opcode f = TEXT_FRAME \<or> opcode f = BINARY_FRAME \<or> opcode f = CONTINUATION_FRAME"
  then show "process_frame c f w = Inr (c\<lparr> queue := f # queue c \<rparr>, w\<lparr> e_code := VE_NONE \<rparr>)"
    by (auto simp add: process_frame_def success_def
          CLOSE_FRAME_def TEXT_FRAME_def BINARY_FRAME_def CONTINUATION_FRAME_def)
qed


theorem process_frame_dispatch_witness:
  "frame_ok \<lparr> fin = 1, opcode = 0x9, mask_f = 0, offset = 2, size_f = 1, data = [0x78] \<rparr> \<and>
   opcode \<lparr> fin = 1, opcode = 0x9, mask_f = 0, offset = 2, size_f = 1, data = [0x78] \<rparr> = PING_FRAME \<and>
   vws_socket_is_connected
     \<lparr> sockfd = 3, ssl = False, buffer = [], flags = CNX_CONNECTED, url = None,
        queue = [], disconnect = False \<rparr> \<and>
   process_frame
     \<lparr> sockfd = 3, ssl = False, buffer = [], flags = CNX_CONNECTED, url = None,
        queue = [], disconnect = False \<rparr>
     \<lparr> fin = 1, opcode = 0x9, mask_f = 0, offset = 2, size_f = 1, data = [0x78] \<rparr>
     \<lparr> e_code = VE_NONE, wire = [], io = [Sent 100], rand = [[0x37, 0xFA, 0x21, 0x3D]],
        hook_calls = 0, freed = [] \<rparr>
   = Inr (\<lparr> sockfd = 3, ssl = False, buffer = [], flags = CNX_CONNECTED, url = None,
        queue = [], disconnect = False \<rparr>,
          \<lparr> e_code = VE_NONE, wire = [0x8A, 0x81, 0x37, 0xFA, 0x21, 0x3D, 0x4F], io = [],
            rand = [], hook_calls = 0,
            freed = [\<lparr> fin = 1, opcode = 0xA, mask_f = 1, offset = 0, size_f = 1, data = [0x78] \<rparr>,
                     \<lparr> fin = 1, opcode = 0x9, mask_f = 0, offset = 2, size_f = 1, data = [0x78] \<rparr>] \<rparr>)"
proof -
  let ?f = "\<lparr> fin = 1, opcode = 0x9, mask_f = 0, offset = 2, size_f = 1, data = [0x78] \<rparr>"
  let ?c = "\<lparr> sockfd = 3, ssl = False, buffer = [], flags = CNX_CONNECTED, url = None,
        queue = [], disconnect = False \<rparr>"
  let ?w = "\<lparr> e_code = VE_NONE, wire = [], io = [Sent 100], rand = [[0x37, 0xFA, 0x21, 0x3D]],
        hook_calls = 0, freed = [] \<rparr>"
  let ?k = "[0x37, 0xFA, 0x21, 0x3D :: byte]"
  have ok: "frame_ok ?f" by (simp add: frame_ok_def)
  have oc: "opcode ?f = PING_FRAME" by (simp add: PING_FRAME_def)
  have conn: "vws_socket_is_connected ?c" by (simp add: vws_socket_is_connected_def)
  have r: "rand ?w = ?k # []" and k: "length ?k = 4" and io: "io ?w = Sent 100 # []" by simp_all
  obtain buf where b:
    "vws_serialize (Some ?k)
       (Some \<lparr> fin = 1, opcode = PONG_FRAME, mask_f = 1, offset = 0,
               size_f = size_f ?f, data = data ?f \<rparr>) = Inr buf"
    "process_frame ?c ?f ?w =
       Inr (?c, ?w\<lparr> e_code := VE_NONE, wire := wire ?w @ take 100 buf, io := [], rand := [],
                 freed := freed ?w @
                   [\<lparr> fin = 1, opcode = PONG_FRAME, mask_f = 1, offset = 0,
                      size_f = size_f ?f, data = data ?f \<rparr>, ?f] \<rparr>)"
    using process_frame_dispatch [OF ok, of ?c ?w ?k "[]" 100 "[]" "vws_frame_new [] 0 TEXT_FRAME" 0]
      oc conn r k io by blast
  have "vws_serialize (Some ?k)
       (Some \<lparr> fin = 1, opcode = PONG_FRAME, mask_f = 1, offset = 0,
               size_f = size_f ?f, data = data ?f \<rparr>)
        = Inr [0x8A, 0x81, 0x37, 0xFA, 0x21, 0x3D, 0x4F]"
    by (simp add: vws_serialize_def length_header_def PONG_FRAME_def upt_rec)
  then have "buf = [0x8A, 0x81, 0x37, 0xFA, 0x21, 0x3D, 0x4F]" using b(1) by simp
  then show ?thesis using ok oc conn b(2) by (simp add: PONG_FRAME_def)
qed


section \<open>Ingress\<close>

text \<open>
  With the buffer empty after the last complete frame, \<open>vws_cnx_ingress\<close> returns
  \<open>total_consumed\<close>.
\<close>

lemma ingress_returns_total_on_empty_buffer:
  "vws_cnx_ingress
     \<lparr> sockfd = 3, ssl = False, buffer = [0x81, 0x02, 0x68, 0x69],
       flags = CNX_CONNECTED, url = None, queue = [], disconnect = False \<rparr>
     \<lparr> e_code = VE_NONE, wire = [], io = [], rand = [], hook_calls = 0, freed = [] \<rparr>
   = Inr (4,
       \<lparr> sockfd = 3, ssl = False, buffer = [],
         flags = CNX_CONNECTED, url = None,
         queue = [\<lparr> fin = 1, opcode = 0x1, mask_f = 0, offset = 2, size_f = 2,
                    data = [0x68, 0x69] \<rparr>],
         disconnect = False \<rparr>,
       \<lparr> e_code = VE_NONE, wire = [], io = [], rand = [], hook_calls = 0,
         freed = [] \<rparr>)"
  by (simp add: vws_cnx_ingress_def ingress_loop.simps vws_deserialize_def vws_frame_new_def
        process_frame_def vws_buffer_drain_def vws_frame_free_def success_def
        CLOSE_FRAME_def TEXT_FRAME_def)

text \<open>
  Claim C6 says that one call of \<open>vws_cnx_ingress\<close> on k complete frames followed by an
  incomplete remainder dispatches the k frames, drains their bytes, and returns the number
  of bytes consumed. The frame is dispatched and its 4 bytes are drained here, the
  remainder stays, but the branch for \<open>FRAME_INCOMPLETE\<close> returns 0 and not
  \<open>total_consumed\<close>.
\<close>

theorem ingress_returns_zero_before_remainder:
  "vws_cnx_ingress
     \<lparr> sockfd = 3, ssl = False, buffer = [0x81, 0x02, 0x68, 0x69, 0x81],
       flags = CNX_CONNECTED, url = None, queue = [], disconnect = False \<rparr>
     \<lparr> e_code = VE_NONE, wire = [], io = [], rand = [], hook_calls = 0, freed = [] \<rparr>
   = Inr (0,
       \<lparr> sockfd = 3, ssl = False, buffer = [0x81],
         flags = CNX_CONNECTED, url = None,
         queue = [\<lparr> fin = 1, opcode = 0x1, mask_f = 0, offset = 2, size_f = 2,
                    data = [0x68, 0x69] \<rparr>],
         disconnect = False \<rparr>,
       \<lparr> e_code = VE_NONE, wire = [], io = [], rand = [], hook_calls = 0,
         freed = [vws_frame_new [] 0 TEXT_FRAME] \<rparr>)"
  by (simp add: vws_cnx_ingress_def ingress_loop.simps vws_deserialize_def vws_frame_new_def
        process_frame_def vws_buffer_drain_def vws_frame_free_def success_def
        CLOSE_FRAME_def TEXT_FRAME_def)


section \<open>Sending on a closed connection\<close>

text \<open>
  Claim C8, amended. On a connection whose socket is not connected, \<open>vws_frame_send\<close>, and
  through it \<open>vws_msg_send_text\<close> and \<open>vws_msg_send_binary\<close>, return -1 at once, with
  nothing serialized or written, and the last-error kind is SOCKET, set by
  \<open>vws_cnx_is_connected\<close>. It is \<open>vws_socket_write\<close> that returns -1 with the kind RT
  on such a socket.
\<close>

theorem send_on_closed:
  assumes closed: "\<not> vws_socket_is_connected c"
  shows "vws_frame_send c f w = Inr (-1, w\<lparr> e_code := VE_SOCKET \<rparr>) \<and>
         vws_msg_send_text c d w = Inr (-1, w\<lparr> e_code := VE_SOCKET \<rparr>) \<and>
         vws_msg_send_binary c d sz w = Inr (-1, w\<lparr> e_code := VE_SOCKET \<rparr>) \<and>
         vws_socket_write c d w = Inr (-1, w\<lparr> e_code := VE_RT \<rparr>)"
  using closed
  by (simp add: vws_frame_send_def vws_msg_send_text_def vws_msg_send_binary_def
        vws_frame_send_data_def vws_cnx_is_connected_def vws_socket_write_def
        error_def success_def)

theorem send_on_closed_witness:
  "\<not> vws_socket_is_connected
       \<lparr> sockfd = -1, ssl = False, buffer = [], flags = CNX_CLOSED, url = None,
         queue = [], disconnect = False \<rparr> \<and>
   vws_msg_send_text
       \<lparr> sockfd = -1, ssl = False, buffer = [], flags = CNX_CLOSED, url = None,
         queue = [], disconnect = False \<rparr>
       [0x68, 0x69]
       \<lparr> e_code = VE_NONE, wire = [], io = [Sent 100], rand = [[0x37, 0xFA, 0x21, 0x3D]],
         hook_calls = 0, freed = [] \<rparr>
     = Inr (-1, \<lparr> e_code = VE_SOCKET, wire = [], io = [Sent 100],
                  rand = [[0x37, 0xFA, 0x21, 0x3D]], hook_calls = 0, freed = [] \<rparr>)"
proof -
  let ?c = "\<lparr> sockfd = -1, ssl = False, buffer = [], flags = CNX_CLOSED, url = None,
         queue = [], disconnect = False \<rparr>"
  have closed: "\<not> vws_socket_is_connected ?c" by (simp add: vws_socket_is_connected_def)
  show ?thesis
    using send_on_closed [OF closed, of "vws_frame_new [] 0 TEXT_FRAME"
      "\<lparr> e_code = VE_NONE, wire = [], io = [Sent 100], rand = [[0x37, 0xFA, 0x21, 0x3D]],
         hook_calls = 0, freed = [] \<rparr>" "[0x68, 0x69]" 2] closed
    by simp
qed

text \<open>
  Claim C8 as stated gives the kind RT for \<open>vws_frame_send\<close>; on this closed connection
  the kind is SOCKET.
\<close>

theorem send_on_closed_error_kind:
  "\<not> vws_socket_is_connected
       \<lparr> sockfd = -1, ssl = False, buffer = [], flags = CNX_CLOSED, url = None,
         queue = [], disconnect = False \<rparr> \<and>
   vws_frame_send
       \<lparr> sockfd = -1, ssl = False, buffer = [], flags = CNX_CLOSED, url = None,
         queue = [], disconnect = False \<rparr>
       (vws_frame_new [0x68, 0x69] 2 TEXT_FRAME)
       \<lparr> e_code = VE_NONE, wire = [], io = [Sent 100], rand = [[0x37, 0xFA, 0x21, 0x3D]],
         hook_calls = 0, freed = [] \<rparr>
     = Inr (-1, \<lparr> e_code = VE_SOCKET, wire = [], io = [Sent 100],
                  rand = [[0x37, 0xFA, 0x21, 0x3D]], hook_calls = 0, freed = [] \<rparr>) \<and>
   VE_SOCKET \<noteq> VE_RT"
  by (simp add: vws_frame_send_def vws_cnx_is_connected_def vws_socket_is_connected_def error_def)


section \<open>Graceful close\<close>

lemma write_loop_all:
  assumes "vws_socket_is_connected c" "b \<noteq> []" "io w = Sent n # evs" "length b \<le> n"
  shows "write_loop c b 0 w = Inr (w\<lparr> e_code := VE_NONE, wire := wire w @ b, io := evs \<rparr>)"
proof -
  have 1: "vws_socket_write c (drop 0 b) w =
             Inr (int (length b), w\<lparr> e_code := VE_NONE, wire := wire w @ b, io := evs \<rparr>)"
    using assms by (simp add: vws_socket_write_def success_def Let_def)
  show ?thesis
    apply (subst write_loop.simps)
    using assms(2) apply (simp only: 1)
    apply (subst write_loop.simps)
    apply simp
    done
qed

lemma close_frame_serialized:
  "length key = 4 \<Longrightarrow>
   vws_serialize (Some key)
     (Some \<lparr> fin = 1, opcode = CLOSE_FRAME, mask_f = 1, offset = 0, size_f = 2,
             data = [0x03, 0xE8] \<rparr>)
   = Inr ([0x88, 0x82] @ key @ [0x03 XOR key ! 0, 0xE8 XOR key ! 1])"
  by (simp add: vws_serialize_def length_header_def CLOSE_FRAME_def upt_rec)

text \<open>
  Claim C9, amended. \<open>vws_disconnect\<close> on a connected connection, with \<open>RAND_bytes\<close>
  delivering a key and the socket taking the frame in one write, calls the disconnect hook
  if one is registered, sets the flags to \<open>CNX_CLOSED\<close>, writes a serialized (masked) CLOSE
  frame whose payload is the status 1000 in 2 big-endian bytes, and closes the socket. A
  second call returns at once, without calling the hook, writing anything or changing the
  connection; it sets the per-thread last-error kind to SOCKET.
\<close>

theorem disconnect_twice:
  assumes conn: "vws_socket_is_connected c"
      and r: "rand w = key # ks" and k: "length key = 4"
      and io: "io w = Sent n # evs" and n: "8 \<le> n"
  shows "\<exists>c' w'.
           vws_disconnect c w = Inr (c', w') \<and>
           c' = c\<lparr> sockfd := -1, ssl := False, flags := CNX_CLOSED \<rparr> \<and>
           w' = w\<lparr> e_code := VE_NONE,
                   wire := wire w @ [0x88, 0x82] @ key
                             @ [hd (big_endian 2 1000) XOR key ! 0,
                                last (big_endian 2 1000) XOR key ! 1],
                   io := evs, rand := ks,
                   hook_calls := hook_calls w + (if disconnect c then 1 else 0),
                   freed := freed w @
                     [\<lparr> fin = 1, opcode = CLOSE_FRAME, mask_f = 1, offset = 0, size_f = 2,
                        data = big_endian 2 1000 \<rparr>] \<rparr> \<and>
           vws_disconnect c' w' = Inr (c', w'\<lparr> e_code := VE_SOCKET \<rparr>)"
proof -
  have be: "big_endian 2 1000 = [0x03, 0xE8]" by (simp add: big_endian_def upt_rec)
  let ?cf = "\<lparr> fin = 1, opcode = CLOSE_FRAME, mask_f = 1, offset = 0,
                size_f = 2, data = [0x03, 0xE8 :: byte] \<rparr>"
  let ?buf = "[0x88, 0x82] @ key @ [0x03 XOR key ! 0, 0xE8 XOR key ! 1]"
  let ?c1 = "c\<lparr> flags := CNX_CLOSED \<rparr>"
  define w0 where "w0 = (if disconnect c then w\<lparr> hook_calls := hook_calls w + 1 \<rparr> else w)"
  have w0: "w0 = w\<lparr> hook_calls := hook_calls w + (if disconnect c then 1 else 0) \<rparr>"
    by (simp add: w0_def)
  have r0: "rand w0 = key # ks" and io0: "io w0 = Sent n # evs"
    using r io by (simp_all add: w0)
  let ?w1 = "w0\<lparr> e_code := VE_NONE, rand := ks, freed := freed w0 @ [?cf] \<rparr>"
  have g: "vws_generate_close_frame w0 = (Inr ?buf, ?w1)"
    using r0 k
    by (simp add: vws_generate_close_frame_def close_frame_new vws_serialize_io_def
          RAND_bytes_def close_frame_serialized success_def vws_frame_free_def)
  have c1: "vws_socket_is_connected ?c1" using conn by (simp add: vws_socket_is_connected_def)
  have l: "write_loop ?c1 ?buf 0 ?w1 = Inr (?w1\<lparr> e_code := VE_NONE, wire := wire ?w1 @ ?buf, io := evs \<rparr>)"
    by (rule write_loop_all[OF c1]) (use io0 k n in simp_all)
  have d0: "vws_disconnect c w =
      Inr (vws_socket_disconnect ?c1 (?w1\<lparr> e_code := VE_NONE, wire := wire ?w1 @ ?buf, io := evs \<rparr>))"
  proof (cases "disconnect c")
    case True
    then have e: "w0 = w\<lparr> hook_calls := hook_calls w + 1 \<rparr>" by (simp add: w0_def)
    show ?thesis
      using conn True g[unfolded e] l[unfolded e]
      by (simp add: vws_disconnect_def Let_def vws_cnx_is_connected_def e)
  next
    case False
    then have e: "w0 = w" by (simp add: w0_def)
    show ?thesis
      using conn False g[unfolded e] l[unfolded e]
      by (simp add: vws_disconnect_def Let_def vws_cnx_is_connected_def e)
  qed
  have d: "vws_disconnect c w =
      Inr (c\<lparr> sockfd := -1, ssl := False, flags := CNX_CLOSED \<rparr>,
           w\<lparr> e_code := VE_NONE, wire := wire w @ ?buf, io := evs, rand := ks,
              hook_calls := hook_calls w + (if disconnect c then 1 else 0),
              freed := freed w @ [?cf] \<rparr>)"
    unfolding d0 using conn
    by (simp add: vws_socket_disconnect_def vws_socket_close_def vws_socket_is_connected_def
        success_def w0)
  have s: "vws_disconnect (c\<lparr> sockfd := -1, ssl := False, flags := CNX_CLOSED \<rparr>) w''
       = Inr (c\<lparr> sockfd := -1, ssl := False, flags := CNX_CLOSED \<rparr>, w''\<lparr> e_code := VE_SOCKET \<rparr>)" for w''
    by (simp add: vws_disconnect_def vws_cnx_is_connected_def vws_socket_is_connected_def error_def)
  show ?thesis
    unfolding be using d s by simp
qed


theorem disconnect_twice_witness:
  "vws_socket_is_connected
     \<lparr> sockfd = 3, ssl = False, buffer = [], flags = CNX_CONNECTED, url = None,
       queue = [], disconnect = True \<rparr> \<and>
   vws_disconnect
     \<lparr> sockfd = 3, ssl = False, buffer = [], flags = CNX_CONNECTED, url = None,
       queue = [], disconnect = True \<rparr>
     \<lparr> e_code = VE_NONE, wire = [], io = [Sent 8], rand = [[0x37, 0xFA, 0x21, 0x3D]],
       hook_calls = 0, freed = [] \<rparr>
   = Inr (\<lparr> sockfd = -1, ssl = False, buffer = [], flags = CNX_CLOSED, url = None,
       queue = [], disconnect = True \<rparr>,
     \<lparr> e_code = VE_NONE, wire = [0x88, 0x82, 0x37, 0xFA, 0x21, 0x3D, 0x34, 0x12], io = [],
       rand = [], hook_calls = 1,
       freed = [\<lparr> fin = 1, opcode = CLOSE_FRAME, mask_f = 1, offset = 0,
                  size_f = 2, data = [0x03, 0xE8] \<rparr>] \<rparr>) \<and>
   vws_disconnect
     \<lparr> sockfd = -1, ssl = False, buffer = [], flags = CNX_CLOSED, url = None,
       queue = [], disconnect = True \<rparr>
     \<lparr> e_code = VE_NONE, wire = [0x88, 0x82, 0x37, 0xFA, 0x21, 0x3D, 0x34, 0x12], io = [],
       rand = [], hook_calls = 1,
       freed = [\<lparr> fin = 1, opcode = CLOSE_FRAME, mask_f = 1, offset = 0,
                  size_f = 2, data = [0x03, 0xE8] \<rparr>] \<rparr>
   = Inr (\<lparr> sockfd = -1, ssl = False, buffer = [], flags = CNX_CLOSED, url = None,
       queue = [], disconnect = True \<rparr>,
     \<lparr> e_code = VE_SOCKET, wire = [0x88, 0x82, 0x37, 0xFA, 0x21, 0x3D, 0x34, 0x12], io = [],
       rand = [], hook_calls = 1,
       freed = [\<lparr> fin = 1, opcode = CLOSE_FRAME, mask_f = 1, offset = 0,
                  size_f = 2, data = [0x03, 0xE8] \<rparr>] \<rparr>)"
proof -
  let ?c = "\<lparr> sockfd = 3, ssl = False, buffer = [], flags = CNX_CONNECTED, url = None,
       queue = [], disconnect = True \<rparr>"
  let ?w = "\<lparr> e_code = VE_NONE, wire = [], io = [Sent 8], rand = [[0x37, 0xFA, 0x21, 0x3D]],
       hook_calls = 0, freed = [] \<rparr>"
  let ?k = "[0x37, 0xFA, 0x21, 0x3D :: byte]"
  have conn: "vws_socket_is_connected ?c" by (simp add: vws_socket_is_connected_def)
  have r: "rand ?w = ?k # []" and k: "length ?k = 4" and io: "io ?w = Sent 8 # []"
    and n: "(8::nat) \<le> 8" by simp_all
  have be: "big_endian 2 1000 = [0x03, 0xE8]" by (simp add: big_endian_def upt_rec)
  show ?thesis
    using disconnect_twice [OF conn r k io n] conn
    by (simp add: be)
qed

text \<open>
  Claim C9 as stated has the second call change no state; the state after the second call
  differs from the state before it, in the last-error kind.
\<close>

theorem disconnect_second_call_sets_error:
  "vws_disconnect
     \<lparr> sockfd = 3, ssl = False, buffer = [], flags = CNX_CONNECTED, url = None,
       queue = [], disconnect = True \<rparr>
     \<lparr> e_code = VE_NONE, wire = [], io = [Sent 8], rand = [[0x37, 0xFA, 0x21, 0x3D]],
       hook_calls = 0, freed = [] \<rparr>
   = Inr (\<lparr> sockfd = -1, ssl = False, buffer = [], flags = CNX_CLOSED, url = None,
       queue = [], disconnect = True \<rparr>,
     \<lparr> e_code = VE_NONE, wire = [0x88, 0x82, 0x37, 0xFA, 0x21, 0x3D, 0x34, 0x12], io = [],
       rand = [], hook_calls = 1,
       freed = [\<lparr> fin = 1, opcode = CLOSE_FRAME, mask_f = 1, offset = 0,
                  size_f = 2, data = [0x03, 0xE8] \<rparr>] \<rparr>) \<and>
   vws_disconnect
     \<lparr> sockfd = -1, ssl = False, buffer = [], flags = CNX_CLOSED, url = None,
       queue = [], disconnect = True \<rparr>
     \<lparr> e_code = VE_NONE, wire = [0x88, 0x82, 0x37, 0xFA, 0x21, 0x3D, 0x34, 0x12], io = [],
       rand = [], hook_calls = 1,
       freed = [\<lparr> fin = 1, opcode = CLOSE_FRAME, mask_f = 1, offset = 0,
                  size_f = 2, data = [0x03, 0xE8] \<rparr>] \<rparr>
   \<noteq> Inr (\<lparr> sockfd = -1, ssl = False, buffer = [], flags = CNX_CLOSED, url = None,
       queue = [], disconnect = True \<rparr>,
     \<lparr> e_code = VE_NONE, wire = [0x88, 0x82, 0x37, 0xFA, 0x21, 0x3D, 0x34, 0x12], io = [],
       rand = [], hook_calls = 1,
       freed = [\<lparr> fin = 1, opcode = CLOSE_FRAME, mask_f = 1, offset = 0,
                  size_f = 2, data = [0x03, 0xE8] \<rparr>] \<rparr>)"
  by (simp add: vws_disconnect_def vws_cnx_is_connected_def vws_socket_is_connected_def
      vws_generate_close_frame_def close_frame_new vws_serialize_io_def RAND_bytes_def
      close_frame_serialized success_def error_def vws_frame_free_def write_loop.simps
      vws_socket_write_def vws_socket_disconnect_def vws_socket_close_def CNX_CLOSED_def)


section \<open>Reconnecting\<close>

text \<open>
  Claim C10. \<open>vws_reconnect\<close> returns true exactly when the connection is connected at
  the call. On a connection that is not connected it returns false, and when a URL is
  stored the connection and the world it leaves are those of \<open>cnx_connect\<close>, whatever
  \<open>cnx_connect\<close> returned: also when the attempt succeeded.
\<close>

theorem reconnect_returns_false:
  "(vws_socket_is_connected c \<longrightarrow> vws_reconnect os hs c si w = Inr (True, c, si, w)) \<and>
   (\<not> vws_socket_is_connected c \<longrightarrow>
      (\<exists>c' si' w'. vws_reconnect os hs c si w = Inr (False, c', si', w') \<and>
         (url c \<noteq> None \<longrightarrow>
            (\<exists>r. cnx_connect os hs c si (error VE_SOCKET w) = Inr (r, c', si', w')))))"
proof (intro conjI impI)
  assume "vws_socket_is_connected c"
  then show "vws_reconnect os hs c si w = Inr (True, c, si, w)"
    by (simp add: vws_reconnect_def vws_cnx_is_connected_def)
next
  assume n: "\<not> vws_socket_is_connected c"
  show "\<exists>c' si' w'. vws_reconnect os hs c si w = Inr (False, c', si', w') \<and>
         (url c \<noteq> None \<longrightarrow>
            (\<exists>r. cnx_connect os hs c si (error VE_SOCKET w) = Inr (r, c', si', w')))"
  proof (cases "url c")
    case None
    then show ?thesis using n by (simp add: vws_reconnect_def vws_cnx_is_connected_def)
  next
    case (Some u)
    have "cnx_connect os hs c si (error VE_SOCKET w) \<noteq> Inl e" for e
      using Some by (cases "host u") (simp_all add: cnx_connect_def Let_def)
    then obtain r c' si' w' where cc: "cnx_connect os hs c si (error VE_SOCKET w) = Inr (r, c', si', w')"
      by (cases "cnx_connect os hs c si (error VE_SOCKET w)") (auto intro: prod_cases4)
    show ?thesis using n Some cc by (simp add: vws_reconnect_def vws_cnx_is_connected_def)
  qed
qed


theorem reconnect_returns_false_witness:
  "\<not> vws_socket_is_connected
     \<lparr> sockfd = -1, ssl = False, buffer = [], flags = CNX_CLOSED,
       url = Some \<lparr> protocol = ''ws'', host = Some ''echo.example'', port = None \<rparr>,
       queue = [], disconnect = False \<rparr> \<and>
   cnx_connect
     \<lparr> ssl_ctx_new = True, ssl_new = True, connect_to_host = (\<lambda>h p. 5), set_timeout = True,
       ssl_connect = True, set_nonblocking = True \<rparr>
     None
     \<lparr> sockfd = -1, ssl = False, buffer = [], flags = CNX_CLOSED,
       url = Some \<lparr> protocol = ''ws'', host = Some ''echo.example'', port = None \<rparr>,
       queue = [], disconnect = False \<rparr>
     False
     \<lparr> e_code = VE_SOCKET, wire = [], io = [], rand = [], hook_calls = 0, freed = [] \<rparr>
   = Inr (True,
     \<lparr> sockfd = 5, ssl = False, buffer = [], flags = CNX_CLOSED,
       url = Some \<lparr> protocol = ''ws'', host = Some ''echo.example'', port = None \<rparr>,
       queue = [], disconnect = False \<rparr>,
     False,
     \<lparr> e_code = VE_NONE, wire = [], io = [], rand = [], hook_calls = 0, freed = [] \<rparr>) \<and>
   vws_socket_is_connected
     \<lparr> sockfd = 5, ssl = False, buffer = [], flags = CNX_CLOSED,
       url = Some \<lparr> protocol = ''ws'', host = Some ''echo.example'', port = None \<rparr>,
       queue = [], disconnect = False \<rparr> \<and>
   vws_reconnect
     \<lparr> ssl_ctx_new = True, ssl_new = True, connect_to_host = (\<lambda>h p. 5), set_timeout = True,
       ssl_connect = True, set_nonblocking = True \<rparr>
     None
     \<lparr> sockfd = -1, ssl = False, buffer = [], flags = CNX_CLOSED,
       url = Some \<lparr> protocol = ''ws'', host = Some ''echo.example'', port = None \<rparr>,
       queue = [], disconnect = False \<rparr>
     False
     \<lparr> e_code = VE_NONE, wire = [], io = [], rand = [], hook_calls = 0, freed = [] \<rparr>
   = Inr (False,
     \<lparr> sockfd = 5, ssl = False, buffer = [], flags = CNX_CLOSED,
       url = Some \<lparr> protocol = ''ws'', host = Some ''echo.example'', port = None \<rparr>,
       queue = [], disconnect = False \<rparr>,
     False,
     \<lparr> e_code = VE_NONE, wire = [], io = [], rand = [], hook_calls = 0, freed = [] \<rparr>)"
proof -
  let ?c = "\<lparr> sockfd = -1, ssl = False, buffer = [], flags = CNX_CLOSED,
       url = Some \<lparr> protocol = ''ws'', host = Some ''echo.example'', port = None \<rparr>,
       queue = [], disconnect = False \<rparr>"
  let ?os = "\<lparr> ssl_ctx_new = True, ssl_new = True, connect_to_host = (\<lambda>h p. 5), set_timeout = True,
       ssl_connect = True, set_nonblocking = True \<rparr>"
  let ?w = "\<lparr> e_code = VE_NONE, wire = [], io = [], rand = [], hook_calls = 0, freed = [] \<rparr>"
  have n: "\<not> vws_socket_is_connected ?c" by (simp add: vws_socket_is_connected_def)
  have u: "url ?c \<noteq> None" by simp
  have cc: "cnx_connect ?os None ?c False (error VE_SOCKET ?w) =
      Inr (True,
     \<lparr> sockfd = 5, ssl = False, buffer = [], flags = CNX_CLOSED,
       url = Some \<lparr> protocol = ''ws'', host = Some ''echo.example'', port = None \<rparr>,
       queue = [], disconnect = False \<rparr>,
     False, ?w)"
    by (simp add: cnx_connect_def vws_socket_connect_def Let_def error_def success_def)
  obtain c' si' w' r where a: "vws_reconnect ?os None ?c False ?w = Inr (False, c', si', w')"
      "cnx_connect ?os None ?c False (error VE_SOCKET ?w) = Inr (r, c', si', w')"
    using reconnect_returns_false [of ?c ?os None False ?w] n u by blast
  have "c' = \<lparr> sockfd = 5, ssl = False, buffer = [], flags = CNX_CLOSED,
       url = Some \<lparr> protocol = ''ws'', host = Some ''echo.example'', port = None \<rparr>,
       queue = [], disconnect = False \<rparr>" "si' = False" "w' = ?w"
    using a(2) unfolding cc by simp_all
  then show ?thesis using a(1) n cc by (simp add: vws_socket_is_connected_def error_def)
qed


section \<open>The accept key\<close>

lemma sha1_input_bytes:
  "(map of_char (''dGhlIHNhbXBsZSBub25jZQ=='' @ ''258EAFA5-E914-47DA-95CA-C5AB0DC85B11'') :: byte list) =
   [
     0x64, 0x47, 0x68, 0x6C, 0x49, 0x48, 0x4E, 0x68, 0x62, 0x58, 0x42, 0x73, 0x5A,
     0x53, 0x42, 0x75, 0x62, 0x32, 0x35, 0x6A, 0x5A, 0x51, 0x3D, 0x3D, 0x32, 0x35,
     0x38, 0x45, 0x41, 0x46, 0x41, 0x35, 0x2D, 0x45, 0x39, 0x31, 0x34, 0x2D, 0x34,
     0x37, 0x44, 0x41, 0x2D, 0x39, 0x35, 0x43, 0x41, 0x2D, 0x43, 0x35, 0x41, 0x42,
     0x30, 0x44, 0x43, 0x38, 0x35, 0x42, 0x31, 0x31]"
  by simp

lemma sha1_pad_vector:
  "sha1_pad [
     0x64, 0x47, 0x68, 0x6C, 0x49, 0x48, 0x4E, 0x68, 0x62, 0x58, 0x42, 0x73, 0x5A,
     0x53, 0x42, 0x75, 0x62, 0x32, 0x35, 0x6A, 0x5A, 0x51, 0x3D, 0x3D, 0x32, 0x35,
     0x38, 0x45, 0x41, 0x46, 0x41, 0x35, 0x2D, 0x45, 0x39, 0x31, 0x34, 0x2D, 0x34,
     0x37, 0x44, 0x41, 0x2D, 0x39, 0x35, 0x43, 0x41, 0x2D, 0x43, 0x35, 0x41, 0x42,
     0x30, 0x44, 0x43, 0x38, 0x35, 0x42, 0x31, 0x31] =
   [
     0x64, 0x47, 0x68, 0x6C, 0x49, 0x48, 0x4E, 0x68, 0x62, 0x58, 0x42, 0x73, 0x5A,
     0x53, 0x42, 0x75, 0x62, 0x32, 0x35, 0x6A, 0x5A, 0x51, 0x3D, 0x3D, 0x32, 0x35,
     0x38, 0x45, 0x41, 0x46, 0x41, 0x35, 0x2D, 0x45, 0x39, 0x31, 0x34, 0x2D, 0x34,
     0x37, 0x44, 0x41, 0x2D, 0x39, 0x35, 0x43, 0x41, 0x2D, 0x43, 0x35, 0x41, 0x42,
     0x30, 0x44, 0x43, 0x38, 0x35, 0x42, 0x31, 0x31, 0x80, 0x00, 0x00, 0x00] @
   [
     0x00, 0x00, 0x00, 0x00, 0x00, 0x00, 0x00, 0x00, 0x00, 0x00, 0x00, 0x00, 0x00,
     0x00, 0x00, 0x00, 0x00, 0x00, 0x00, 0x00, 0x00, 0x00, 0x00, 0x00, 0x00, 0x00,
     0x00, 0x00, 0x00, 0x00, 0x00, 0x00, 0x00, 0x00, 0x00, 0x00, 0x00, 0x00, 0x00,
     0x00, 0x00, 0x00, 0x00, 0x00, 0x00, 0x00, 0x00, 0x00, 0x00, 0x00, 0x00, 0x00,
     0x00, 0x00, 0x00, 0x00, 0x00, 0x00, 0x00, 0x00, 0x00, 0x00, 0x01, 0xE0]"
  by (simp add: sha1_pad_def upt_rec)

lemma sha1_block_vector_1:
  "sha1_block (0x67452301, 0xEFCDAB89, 0x98BADCFE, 0x10325476, 0xC3D2E1F0)
     [
     0x64, 0x47, 0x68, 0x6C, 0x49, 0x48, 0x4E, 0x68, 0x62, 0x58, 0x42, 0x73, 0x5A,
     0x53, 0x42, 0x75, 0x62, 0x32, 0x35, 0x6A, 0x5A, 0x51, 0x3D, 0x3D, 0x32, 0x35,
     0x38, 0x45, 0x41, 0x46, 0x41, 0x35, 0x2D, 0x45, 0x39, 0x31, 0x34, 0x2D, 0x34,
     0x37, 0x44, 0x41, 0x2D, 0x39, 0x35, 0x43, 0x41, 0x2D, 0x43, 0x35, 0x41, 0x42,
     0x30, 0x44, 0x43, 0x38, 0x35, 0x42, 0x31, 0x31, 0x80, 0x00, 0x00, 0x00]
   = (0x5BCF7727, 0x7327416A, 0xBE7BFBF9, 0x5A781878, 0x5E46A4E2)"
  by (simp add: sha1_block_def upt_rec be32_def rotl_def sha1_f_def sha1_k_def)

lemma sha1_block_vector_2:
  "sha1_block (0x5BCF7727, 0x7327416A, 0xBE7BFBF9, 0x5A781878, 0x5E46A4E2)
     [
     0x00, 0x00, 0x00, 0x00, 0x00, 0x00, 0x00, 0x00, 0x00, 0x00, 0x00, 0x00, 0x00,
     0x00, 0x00, 0x00, 0x00, 0x00, 0x00, 0x00, 0x00, 0x00, 0x00, 0x00, 0x00, 0x00,
     0x00, 0x00, 0x00, 0x00, 0x00, 0x00, 0x00, 0x00, 0x00, 0x00, 0x00, 0x00, 0x00,
     0x00, 0x00, 0x00, 0x00, 0x00, 0x00, 0x00, 0x00, 0x00, 0x00, 0x00, 0x00, 0x00,
     0x00, 0x00, 0x00, 0x00, 0x00, 0x00, 0x00, 0x00, 0x00, 0x00, 0x01, 0xE0]
   = (0xB37A4F2C, 0xC0624F16, 0x90F64606, 0xCF385945, 0xB2BEC4EA)"
  by (simp add: sha1_block_def upt_rec be32_def rotl_def sha1_f_def sha1_k_def)

lemma sha_vec:
  "SHA1 (map of_char (''dGhlIHNhbXBsZSBub25jZQ=='' @ ''258EAFA5-E914-47DA-95CA-C5AB0DC85B11'')) =
   [0xB3, 0x7A, 0x4F, 0x2C, 0xC0, 0x62, 0x4F, 0x16, 0x90, 0xF6, 0x46, 0x06, 0xCF, 0x38, 0x59,
    0x45, 0xB2, 0xBE, 0xC4, 0xEA]"
  unfolding sha1_input_bytes SHA1_def sha1_pad_vector
  by (simp add: upt_rec sha1_block_vector_1 sha1_block_vector_2 word_bytes_def)

lemma base64_char_not_nul: "base64_char x \<noteq> CHR 0x00"
proof -
  have "unat (x AND 0x3F) \<le> unat (0x3F :: byte)"
    by (rule word_and_le1 [THEN word_le_nat_alt [THEN iffD1]])
  then have "unat (x AND 0x3F) < length base64_alphabet"
    by (simp add: base64_alphabet_def)
  then have "base64_char x \<in> set base64_alphabet"
    unfolding base64_char_def by (rule nth_mem)
  moreover have "CHR 0x00 \<notin> set base64_alphabet" by (simp add: base64_alphabet_def)
  ultimately show ?thesis by metis
qed

lemma vws_base64_encode_not_nul: "CHR 0x00 \<notin> set (vws_base64_encode bs)"
  by (induction bs rule: vws_base64_encode.induct)
     (simp_all add: base64_char_not_nul base64_char_not_nul [symmetric])

lemma of_char_zero: "(of_char x :: int) = 0 \<longleftrightarrow> x = CHR 0x00"
  using of_char_eq_iff [of x "CHR 0x00", where ?'a = int] by simp

lemma strcmp_eq:
  "CHR 0x00 \<notin> set a \<Longrightarrow> CHR 0x00 \<notin> set b \<Longrightarrow> strcmp a b = 0 \<longleftrightarrow> a = b"
proof (induction a b rule: strcmp.induct)
  case 1
  then show ?case by simp
next
  case (2 y ys)
  then show ?case by (auto simp add: of_char_zero)
next
  case (3 x xs)
  then show ?case by (auto simp add: of_char_zero)
next
  case (4 x xs y ys)
  then show ?case by auto
qed

text \<open>
  Claim C7. For every client key \<open>k\<close>, \<open>vws_accept_key k\<close> is the Base64 encoding of the
  SHA-1 digest of \<open>k\<close> followed by \<open>258EAFA5-E914-47DA-95CA-C5AB0DC85B11\<close>;
  \<open>verify_handshake k r\<close> succeeds exactly when the C string \<open>r\<close> is equal to that value;
  and the key \<open>dGhlIHNhbXBsZSBub25jZQ==\<close> gives \<open>s3pPLMBiTxaQ9kYGzzhZRbK+xOo=\<close>.
\<close>

theorem accept_key_derivation:
  "vws_accept_key k =
     vws_base64_encode (SHA1 (map of_char (k @ ''258EAFA5-E914-47DA-95CA-C5AB0DC85B11''))) \<and>
   (CHR 0x00 \<notin> set r \<longrightarrow> (verify_handshake k r = 1 \<longleftrightarrow> r = vws_accept_key k)) \<and>
   vws_accept_key ''dGhlIHNhbXBsZSBub25jZQ=='' = ''s3pPLMBiTxaQ9kYGzzhZRbK+xOo=''"
proof (intro conjI impI)
  show "vws_accept_key k =
     vws_base64_encode (SHA1 (map of_char (k @ ''258EAFA5-E914-47DA-95CA-C5AB0DC85B11'')))"
    by (simp add: vws_accept_key_def)
next
  assume r: "CHR 0x00 \<notin> set r"
  have h: "CHR 0x00 \<notin> set (vws_accept_key k)"
    unfolding vws_accept_key_def Let_def by (rule vws_base64_encode_not_nul)
  show "verify_handshake k r = 1 \<longleftrightarrow> r = vws_accept_key k"
    using strcmp_eq [OF h r] by (auto simp add: verify_handshake_def Let_def)
next
  show "vws_accept_key ''dGhlIHNhbXBsZSBub25jZQ=='' = ''s3pPLMBiTxaQ9kYGzzhZRbK+xOo=''"
    unfolding vws_accept_key_def Let_def sha_vec
    by (simp add: base64_char_def base64_alphabet_def)
qed

theorem accept_key_derivation_witness:
  "CHR 0x00 \<notin> set ''s3pPLMBiTxaQ9kYGzzhZRbK+xOo='' \<and>
   verify_handshake ''dGhlIHNhbXBsZSBub25jZQ=='' ''s3pPLMBiTxaQ9kYGzzhZRbK+xOo='' = 1"
proof -
  have r: "CHR 0x00 \<notin> set ''s3pPLMBiTxaQ9kYGzzhZRbK+xOo=''" by simp
  note t = accept_key_derivation [of "''dGhlIHNhbXBsZSBub25jZQ==''" "''s3pPLMBiTxaQ9kYGzzhZRbK+xOo=''"]
  from t have "vws_accept_key ''dGhlIHNhbXBsZSBub25jZQ=='' = ''s3pPLMBiTxaQ9kYGzzhZRbK+xOo=''"
    by blast
  moreover from t r have "verify_handshake ''dGhlIHNhbXBsZSBub25jZQ=='' ''s3pPLMBiTxaQ9kYGzzhZRbK+xOo='' = 1
      \<longleftrightarrow> ''s3pPLMBiTxaQ9kYGzzhZRbK+xOo='' = vws_accept_key ''dGhlIHNhbXBsZSBub25jZQ==''"
    by blast
  ultimately show ?thesis using r by metis
qed


end
